theory Spec2Isabelle
  imports Complex_Main "HOL-Library.Word" "HOL-Library.Sublist"
begin

section \<open>Futuristic-HUD: the SystemMonitor core (SystemMonitor.h, SystemMonitor.cpp)\<close>

text \<open>
  The embedding follows the Linux build of the sources, that is the \<^verbatim>\<open>#else\<close> branches of
  \<^verbatim>\<open>SampleCpuUsage\<close>, \<^verbatim>\<open>SampleRamUsage\<close>, \<^verbatim>\<open>QueryProcesses\<close> and \<^verbatim>\<open>TerminateProcess\<close>.
  Everything a method reads from the operating system or the network is an explicit argument
  of its model; every member the method writes is a field of the record \<open>SystemMonitor\<close>,
  which is passed in and returned. The C++ \<^verbatim>\<open>float\<close> and \<^verbatim>\<open>double\<close> values are
  modelled by the exact reals they approximate: no property below depends on rounding.
\<close>

subsection \<open>Characters and strings of the C library\<close>

text \<open>\<^verbatim>\<open>std::tolower\<close>, \<^verbatim>\<open>std::isspace\<close> and the digits, in the "C" locale, on \<^verbatim>\<open>unsigned char\<close>.\<close>

definition isupper_c :: "char \<Rightarrow> bool" where
  "isupper_c c \<longleftrightarrow> 65 \<le> (of_char c :: nat) \<and> (of_char c :: nat) \<le> 90"

definition islower_c :: "char \<Rightarrow> bool" where
  "islower_c c \<longleftrightarrow> 97 \<le> (of_char c :: nat) \<and> (of_char c :: nat) \<le> 122"

definition isdigit_c :: "char \<Rightarrow> bool" where
  "isdigit_c c \<longleftrightarrow> 48 \<le> (of_char c :: nat) \<and> (of_char c :: nat) \<le> 57"

definition isspace_c :: "char \<Rightarrow> bool" where
  "isspace_c c \<longleftrightarrow> (of_char c :: nat) = 32 \<or> (9 \<le> (of_char c :: nat) \<and> (of_char c :: nat) \<le> 13)"

definition tolower_c :: "char \<Rightarrow> char" where
  "tolower_c c = (if isupper_c c then char_of ((of_char c :: nat) + 32) else c)"

text \<open>A character without case: \<^verbatim>\<open>std::tolower\<close> neither changes it nor produces it from another one.\<close>

definition caseless :: "char \<Rightarrow> bool" where
  "caseless c \<longleftrightarrow> \<not> isupper_c c \<and> \<not> islower_c c"

text \<open>\<^verbatim>\<open>toLower\<close> (SystemMonitor.cpp, lines 42-46): \<^verbatim>\<open>std::transform\<close> with \<^verbatim>\<open>std::tolower\<close>.\<close>

definition toLower :: "string \<Rightarrow> string" where
  "toLower s = map tolower_c s"

text \<open>
  \<^verbatim>\<open>std::string::find\<close>: the first position at which the argument occurs, \<open>None\<close> for
  \<^verbatim>\<open>npos\<close>. The empty string is found at position 0 of every string.
\<close>

fun find_str :: "string \<Rightarrow> string \<Rightarrow> nat option" where
  "find_str [] t = (if t = [] then Some 0 else None)"
| "find_str (c # cs) t =
     (if prefix t (c # cs) then Some 0 else map_option Suc (find_str cs t))"

text \<open>\<^verbatim>\<open>std::to_string(int)\<close>: the decimal digits, with a leading minus sign below zero.\<close>

definition digit_char :: "nat \<Rightarrow> char" where
  "digit_char d = char_of (48 + d)"

fun nat_to_string :: "nat \<Rightarrow> string" where
  "nat_to_string n =
     (if n < 10 then [digit_char n] else nat_to_string (n div 10) @ [digit_char (n mod 10)])"

declare nat_to_string.simps [simp del]

definition to_string :: "int \<Rightarrow> string" where
  "to_string i = (if i < 0 then CHR ''-'' # nat_to_string (nat (- i)) else nat_to_string (nat i))"

subsection \<open>Data model (SystemMonitor.h)\<close>

record ProcessInfo =
  pid :: int
  name :: string

record HardwareStats =
  cpuLoadPercent :: real
  ramUsedGB :: real
  ramTotalGB :: real

record WeatherInfo =
  summary :: string
  temperatureC :: real
  windKph :: real
  lastUpdated :: nat

definition MaxHistory :: nat where
  "MaxHistory = 256"

record SystemMonitor =
  m_hwStats :: HardwareStats
  m_cpuHistory :: "real list"
  m_lastTotalJiffies :: "64 word"
  m_lastIdleJiffies :: "64 word"
  m_weather :: "WeatherInfo option"
  m_weatherLoading :: bool
  m_weatherThreadStop :: bool
  m_processesCache :: "ProcessInfo list"

text \<open>The default member initialisers: the object as the constructor's body finds it.\<close>

definition HardwareStats_default :: HardwareStats where
  "HardwareStats_default = \<lparr>cpuLoadPercent = 0, ramUsedGB = 0, ramTotalGB = 0\<rparr>"

definition SystemMonitor_members :: SystemMonitor where
  "SystemMonitor_members =
     \<lparr>m_hwStats = HardwareStats_default, m_cpuHistory = [],
      m_lastTotalJiffies = 0, m_lastIdleJiffies = 0,
      m_weather = None, m_weatherLoading = False, m_weatherThreadStop = False,
      m_processesCache = []\<rparr>"

subsection \<open>What a tick reads from the operating system\<close>

text \<open>
  The first line of \<^verbatim>\<open>/proc/stat\<close> as the stream extraction leaves the local variables:
  the label and eight \<^verbatim>\<open>unsigned long long\<close> counters (a counter that could not be read is 0,
  its initial value). \<open>None\<close> stands for a file that could not be opened.
\<close>

record proc_stat =
  cpuLabel :: string
  user :: "64 word"
  nice :: "64 word"
  system :: "64 word"
  idle :: "64 word"
  iowait :: "64 word"
  irq :: "64 word"
  softirq :: "64 word"
  steal :: "64 word"

text \<open>The fields of \<^verbatim>\<open>struct sysinfo\<close> that are read; \<open>None\<close> when \<^verbatim>\<open>sysinfo()\<close> fails.\<close>

record sysinfo =
  totalram :: nat
  freeram :: nat
  mem_unit :: nat

text \<open>
  One \<^verbatim>\<open>Update()\<close> reads \<^verbatim>\<open>/proc/stat\<close>, \<^verbatim>\<open>sysinfo()\<close> and the output of
  \<^verbatim>\<open>ps -axo pid=,comm=\<close>: the list of the buffers that the successive \<^verbatim>\<open>fgets\<close> calls
  return, or \<open>None\<close> when \<^verbatim>\<open>popen\<close> returns a null pipe.
\<close>

record tick_env =
  env_stat :: "proc_stat option"
  env_sysinfo :: "sysinfo option"
  env_ps :: "string list option"

subsection \<open>CPU and RAM sampling\<close>

definition idleAll :: "proc_stat \<Rightarrow> 64 word" where
  "idleAll st = idle st + iowait st"

definition nonIdle :: "proc_stat \<Rightarrow> 64 word" where
  "nonIdle st = user st + nice st + system st + irq st + softirq st + steal st"

definition total :: "proc_stat \<Rightarrow> 64 word" where
  "total st = idleAll st + nonIdle st"

text \<open>\<^verbatim>\<open>SampleCpuUsage\<close> (lines 196-218): the value returned and the object afterwards.\<close>

definition SampleCpuUsage :: "proc_stat option \<Rightarrow> SystemMonitor \<Rightarrow> real \<times> SystemMonitor" where
  "SampleCpuUsage stat m =
     (case stat of
        None \<Rightarrow> (0, m)
      | Some st \<Rightarrow>
          if cpuLabel st \<noteq> ''cpu'' then (0, m)
          else
            let totalDiff = total st - m_lastTotalJiffies m;
                idleDiff = idleAll st - m_lastIdleJiffies m;
                m' = m\<lparr>m_lastTotalJiffies := total st, m_lastIdleJiffies := idleAll st\<rparr>
            in if totalDiff = 0 then (0, m')
               else (100 * real (unat (totalDiff - idleDiff)) / real (unat totalDiff), m'))"

text \<open>\<^verbatim>\<open>SampleRamUsage\<close> (lines 259-265) fills two fields of the snapshot it is given.\<close>

definition GiB :: real where
  "GiB = 1024 * 1024 * 1024"

definition SampleRamUsage :: "sysinfo option \<Rightarrow> HardwareStats \<Rightarrow> HardwareStats" where
  "SampleRamUsage si stats =
     (case si of
        None \<Rightarrow> stats
      | Some info \<Rightarrow>
          let total_gb = real (totalram info) * real (mem_unit info) / GiB;
              free_gb = real (freeram info) * real (mem_unit info) / GiB
          in stats\<lparr>ramTotalGB := total_gb, ramUsedGB := total_gb - free_gb\<rparr>)"

text \<open>
  \<^verbatim>\<open>UpdateHardware\<close> (lines 134-148). \<^verbatim>\<open>erase(begin())\<close> runs only on a vector of at least
  \<open>MaxHistory\<close> elements, which is not empty, so it is \<open>tl\<close>.
\<close>

definition UpdateHardware :: "proc_stat option \<Rightarrow> sysinfo option \<Rightarrow> SystemMonitor \<Rightarrow> SystemMonitor" where
  "UpdateHardware stat si m =
     (let (cpu, m1) = SampleCpuUsage stat m;
          stats = SampleRamUsage si (HardwareStats_default\<lparr>cpuLoadPercent := cpu\<rparr>);
          hist = (if length (m_cpuHistory m1) \<ge> MaxHistory then tl (m_cpuHistory m1)
                  else m_cpuHistory m1)
      in m1\<lparr>m_hwStats := stats, m_cpuHistory := hist @ [cpu]\<rparr>)"

subsection \<open>Process enumeration\<close>

text \<open>
  \<^verbatim>\<open>iss >> pid\<close> on an \<^verbatim>\<open>int\<close>: leading white space is skipped, then an optional sign and
  the longest run of decimal digits are consumed. The extraction fails (the result is
  \<open>None\<close>) when there is no digit or the number does not fit an \<^verbatim>\<open>int\<close>; otherwise it yields
  the number and the unread rest of the buffer.
\<close>

definition digits_value :: "string \<Rightarrow> nat" where
  "digits_value ds = foldl (\<lambda>acc c. 10 * acc + ((of_char c :: nat) - 48)) 0 ds"

definition extract_int :: "string \<Rightarrow> (int \<times> string) option" where
  "extract_int buffer =
     (let s1 = dropWhile isspace_c buffer;
          neg = (s1 \<noteq> [] \<and> hd s1 = CHR ''-'');
          s2 = (if s1 \<noteq> [] \<and> (hd s1 = CHR ''-'' \<or> hd s1 = CHR ''+'') then tl s1 else s1);
          ds = takeWhile isdigit_c s2;
          v = (if neg then - int (digits_value ds) else int (digits_value ds))
      in if ds = [] then None
         else if v < - (2 ^ 31) \<or> 2 ^ 31 - 1 < v then None
         else Some (v, dropWhile isdigit_c s2))"

text \<open>\<^verbatim>\<open>std::getline\<close>: the characters up to the first newline, or all of them.\<close>

definition getline :: "string \<Rightarrow> string" where
  "getline s = takeWhile (\<lambda>c. c \<noteq> CHR 0x0A) s"

text \<open>The body of the \<^verbatim>\<open>while (fgets ...)\<close> loop (lines 297-312); \<open>None\<close> is \<^verbatim>\<open>continue\<close>.\<close>

definition parse_ps_line :: "string \<Rightarrow> ProcessInfo option" where
  "parse_ps_line buffer =
     (case extract_int buffer of
        None \<Rightarrow> None
      | Some (p, rest) \<Rightarrow>
          let nm = dropWhile isspace_c (getline rest)
          in Some \<lparr>pid = p, name = (if nm = [] then ''unknown'' else nm)\<rparr>)"

fun read_ps_lines :: "string list \<Rightarrow> ProcessInfo list \<Rightarrow> ProcessInfo list" where
  "read_ps_lines [] procs = procs"
| "read_ps_lines (buffer # bufs) procs =
     (case parse_ps_line buffer of
        None \<Rightarrow> read_ps_lines bufs procs
      | Some p \<Rightarrow> read_ps_lines bufs (procs @ [p]))"

text \<open>\<^verbatim>\<open>QueryProcesses\<close> (lines 271-317, POSIX branch).\<close>

definition QueryProcesses :: "string list option \<Rightarrow> ProcessInfo list" where
  "QueryProcesses ps = (case ps of None \<Rightarrow> [] | Some lines \<Rightarrow> read_ps_lines lines [])"

subsection \<open>The tick and the constructor\<close>

text \<open>\<^verbatim>\<open>Update\<close> (lines 69-77).\<close>

definition Update :: "tick_env \<Rightarrow> SystemMonitor \<Rightarrow> SystemMonitor" where
  "Update e m =
     (UpdateHardware (env_stat e) (env_sysinfo e) m)\<lparr>m_processesCache := QueryProcesses (env_ps e)\<rparr>"

text \<open>
  The constructor (lines 49-59) calls \<^verbatim>\<open>SampleCpuUsage\<close> once and drops the value it returns.
  The weather thread it starts is the worker modelled further below.
\<close>

definition SystemMonitor_ctor :: "proc_stat option \<Rightarrow> SystemMonitor" where
  "SystemMonitor_ctor stat = snd (SampleCpuUsage stat SystemMonitor_members)"

text \<open>A run of ticks, and the CPU samples that the ticks of a run obtain, in order.\<close>

fun Updates :: "tick_env list \<Rightarrow> SystemMonitor \<Rightarrow> SystemMonitor" where
  "Updates [] m = m"
| "Updates (e # es) m = Updates es (Update e m)"

fun cpu_samples :: "tick_env list \<Rightarrow> SystemMonitor \<Rightarrow> real list" where
  "cpu_samples [] m = []"
| "cpu_samples (e # es) m = fst (SampleCpuUsage (env_stat e) m) # cpu_samples es (Update e m)"

definition most_recent :: "nat \<Rightarrow> 'a list \<Rightarrow> 'a list" where
  "most_recent n xs = drop (length xs - n) xs"

subsection \<open>Accessors, filtering and termination\<close>

text \<open>
  \<^verbatim>\<open>GetHardwareStats\<close>, \<^verbatim>\<open>GetCpuHistory\<close>, \<^verbatim>\<open>IsWeatherLoading\<close> and \<^verbatim>\<open>GetWeather\<close>
  return a member. (What they lock is the subject of the interleaving model below.)
\<close>

definition GetHardwareStats :: "SystemMonitor \<Rightarrow> HardwareStats" where
  "GetHardwareStats m = m_hwStats m"

definition GetCpuHistory :: "SystemMonitor \<Rightarrow> real list" where
  "GetCpuHistory m = m_cpuHistory m"

definition IsWeatherLoading :: "SystemMonitor \<Rightarrow> bool" where
  "IsWeatherLoading m = m_weatherLoading m"

definition GetWeather :: "SystemMonitor \<Rightarrow> WeatherInfo option" where
  "GetWeather m = m_weather m"

text \<open>
  \<^verbatim>\<open>GetProcesses\<close> (lines 84-97): the loop pushes the records that pass the test, in the
  order of the cache. The method is \<^verbatim>\<open>const\<close> and assigns no member: the object it
  returns is the one it was given.
\<close>

definition passes_filter :: "string \<Rightarrow> ProcessInfo \<Rightarrow> bool" where
  "passes_filter filterLower p \<longleftrightarrow>
     filterLower = [] \<or>
     find_str (toLower (name p)) filterLower \<noteq> None \<or>
     find_str (to_string (pid p)) filterLower \<noteq> None"

definition GetProcesses :: "string \<Rightarrow> SystemMonitor \<Rightarrow> ProcessInfo list \<times> SystemMonitor" where
  "GetProcesses flt m =
     (let filterLower = toLower flt
      in (filter (passes_filter filterLower) (m_processesCache m), m))"

text \<open>
  \<^verbatim>\<open>TerminateProcess\<close> (lines 114-118). The operating system is the function \<open>sys_kill\<close>:
  for a pid, the value \<^verbatim>\<open>kill(pid, SIGTERM)\<close> returns and the text of
  \<^verbatim>\<open>std::strerror(errno)\<close> after it. The result is the boolean, the caller's
  \<^verbatim>\<open>errorMessage\<close> afterwards, and the object.
\<close>

definition TerminateProcess ::
  "(int \<Rightarrow> int \<times> string) \<Rightarrow> int \<Rightarrow> string \<Rightarrow> SystemMonitor \<Rightarrow> (bool \<times> string) \<times> SystemMonitor" where
  "TerminateProcess sys_kill p errorMessage m =
     (if fst (sys_kill p) \<noteq> 0
      then ((False, ''kill(SIGTERM) failed: '' @ snd (sys_kill p)), m)
      else ((True, errorMessage), m))"

subsection \<open>Weather\<close>

text \<open>\<^verbatim>\<open>RequestWeatherRefresh\<close> (lines 122-127): \<^verbatim>\<open>exchange(true)\<close>, the old value is not used.\<close>

definition RequestWeatherRefresh :: "SystemMonitor \<Rightarrow> SystemMonitor" where
  "RequestWeatherRefresh m = m\<lparr>m_weatherLoading := True\<rparr>"

text \<open>
  The JSON values of the nlohmann library, and the four library calls that
  \<^verbatim>\<open>FetchWeatherBlocking\<close> makes, after the library's documentation. An object is the list
  of its members (the parser keeps one value for a key, so \<open>map_of\<close> is the lookup);
  \<open>JInteger\<close> stands for both integer kinds. \<open>None\<close> is a thrown exception.
\<close>

datatype json =
    JNull
  | JBool bool
  | JInteger int
  | JFloat real
  | JString string
  | JArray "json list"
  | JObject "(string \<times> json) list"

text \<open>\<^verbatim>\<open>j.contains(key)\<close>: false on everything that is not an object.\<close>

definition json_contains :: "json \<Rightarrow> string \<Rightarrow> bool" where
  "json_contains j key = (case j of JObject kvs \<Rightarrow> map_of kvs key \<noteq> None | _ \<Rightarrow> False)"

text \<open>
  \<^verbatim>\<open>j[key]\<close> on a non-const value: the member, a null member that is created when the
  key is missing or the value is null, \<^verbatim>\<open>type_error\<close> on any other kind.
\<close>

definition json_at :: "json \<Rightarrow> string \<Rightarrow> json option" where
  "json_at j key =
     (case j of
        JObject kvs \<Rightarrow> (case map_of kvs key of Some v \<Rightarrow> Some v | None \<Rightarrow> Some JNull)
      | JNull \<Rightarrow> Some JNull
      | _ \<Rightarrow> None)"

text \<open>\<^verbatim>\<open>get<double>()\<close> takes the two number kinds only.\<close>

definition json_get_double :: "json \<Rightarrow> real option" where
  "json_get_double v =
     (case v of JInteger n \<Rightarrow> Some (real_of_int n) | JFloat x \<Rightarrow> Some x | _ \<Rightarrow> None)"

text \<open>
  \<^verbatim>\<open>get<int>()\<close> takes numbers and booleans and casts them: an integer is reduced to
  32 bits, a floating-point number loses its fraction.
\<close>

definition json_get_int :: "json \<Rightarrow> int option" where
  "json_get_int v =
     (case v of
        JInteger n \<Rightarrow> Some (sint (word_of_int n :: 32 word))
      | JFloat x \<Rightarrow> Some (if x < 0 then - \<lfloor>- x\<rfloor> else \<lfloor>x\<rfloor>)
      | JBool b \<Rightarrow> Some (if b then 1 else 0)
      | _ \<Rightarrow> None)"

text \<open>
  \<^verbatim>\<open>cw.value(key, default)\<close>: on an object, the converted member if the key is there and
  the default if it is not; \<^verbatim>\<open>type_error\<close> on anything that is not an object.
\<close>

definition json_value :: "(json \<Rightarrow> 'a option) \<Rightarrow> json \<Rightarrow> string \<Rightarrow> 'a \<Rightarrow> 'a option" where
  "json_value conv cw key dflt =
     (case cw of
        JObject kvs \<Rightarrow> (case map_of kvs key of Some v \<Rightarrow> conv v | None \<Rightarrow> Some dflt)
      | _ \<Rightarrow> None)"

text \<open>
  What one fetch meets: whether \<^verbatim>\<open>curl_easy_init\<close> returned a handle, the code that
  \<^verbatim>\<open>curl_easy_perform\<close> returned (0 is \<^verbatim>\<open>CURLE_OK\<close>; a timeout and every network error
  are non-zero), what \<^verbatim>\<open>json::parse\<close> makes of the body (\<open>None\<close> when it throws), and
  the clock.
\<close>

record fetch_env =
  curl_init_ok :: bool
  curl_res :: nat
  parsed_body :: "json option"
  clock_now :: nat

text \<open>
  \<^verbatim>\<open>FetchWeatherBlocking\<close> (lines 331-381). Each \<^verbatim>\<open>m_weather.reset()\<close> of the source is a
  branch that ends in \<open>weather_reset\<close>; an exception inside the \<^verbatim>\<open>try\<close> block reaches the
  one in the \<^verbatim>\<open>catch (...)\<close> handler.
\<close>

definition weather_reset :: "SystemMonitor \<Rightarrow> SystemMonitor" where
  "weather_reset m = m\<lparr>m_weather := None\<rparr>"

definition FetchWeatherBlocking :: "fetch_env \<Rightarrow> SystemMonitor \<Rightarrow> SystemMonitor" where
  "FetchWeatherBlocking e m =
     (if \<not> curl_init_ok e then weather_reset m
      else if curl_res e \<noteq> 0 then weather_reset m
      else case parsed_body e of
        None \<Rightarrow> weather_reset m
      | Some j \<Rightarrow>
          if \<not> json_contains j ''current_weather'' then weather_reset m
          else case json_at j ''current_weather'' of
            None \<Rightarrow> weather_reset m
          | Some cw \<Rightarrow>
              (case json_value json_get_double cw ''temperature'' 0 of
                 None \<Rightarrow> weather_reset m
               | Some t \<Rightarrow>
                   (case json_value json_get_double cw ''windspeed'' 0 of
                      None \<Rightarrow> weather_reset m
                    | Some w \<Rightarrow>
                        (case json_value json_get_int cw ''weathercode'' 0 of
                           None \<Rightarrow> weather_reset m
                         | Some code \<Rightarrow>
                             m\<lparr>m_weather := Some
                                 \<lparr>summary = ''Code '' @ to_string code, temperatureC = t,
                                  windKph = w, lastUpdated = clock_now e\<rparr>\<rparr>))))"

subsection \<open>The weather worker and its requesters, interleaved\<close>

text \<open>
  \<^verbatim>\<open>WeatherWorker\<close> (lines 321-329) runs on its own thread while other threads call
  \<^verbatim>\<open>RequestWeatherRefresh\<close> and the destructor. The two flags are atomics, so a run of the
  program is an interleaving of the atomic steps of the threads. The worker's position is
  the statement it executes next; \<open>In_fetch\<close> is a call of \<^verbatim>\<open>FetchWeatherBlocking\<close> that
  has not returned yet (it writes \<^verbatim>\<open>m_weather\<close> once, under the weather lock, when it
  returns). Three counters record how often the worker called the fetch, how often it
  stored \<^verbatim>\<open>false\<close> into the flag after one, and how many requests were accepted: the
  calls of \<^verbatim>\<open>RequestWeatherRefresh\<close> whose \<^verbatim>\<open>exchange(true)\<close> returned \<^verbatim>\<open>false\<close>, which
  are those that enter the branch commented \<^verbatim>\<open>Newly requested\<close>.
\<close>

datatype worker_pc =
    At_stop_check
  | At_loading_check
  | In_fetch
  | At_clear
  | At_sleep
  | Exited

record weather_sys =
  monitor :: SystemMonitor
  worker :: worker_pc
  fetch_calls :: nat
  completions :: nat
  accepted :: nat

definition worker_step :: "fetch_env \<Rightarrow> weather_sys \<Rightarrow> weather_sys" where
  "worker_step e s =
     (case worker s of
        At_stop_check \<Rightarrow>
          if m_weatherThreadStop (monitor s) then s\<lparr>worker := Exited\<rparr>
          else s\<lparr>worker := At_loading_check\<rparr>
      | At_loading_check \<Rightarrow>
          if m_weatherLoading (monitor s)
          then s\<lparr>worker := In_fetch, fetch_calls := fetch_calls s + 1\<rparr>
          else s\<lparr>worker := At_sleep\<rparr>
      | In_fetch \<Rightarrow> s\<lparr>monitor := FetchWeatherBlocking e (monitor s), worker := At_clear\<rparr>
      | At_clear \<Rightarrow>
          s\<lparr>monitor := (monitor s)\<lparr>m_weatherLoading := False\<rparr>, worker := At_sleep,
            completions := completions s + 1\<rparr>
      | At_sleep \<Rightarrow> s\<lparr>worker := At_stop_check\<rparr>
      | Exited \<Rightarrow> s)"

text \<open>
  The events of a run: a call of \<^verbatim>\<open>RequestWeatherRefresh\<close>, the next step of the worker
  (with what the fetch meets, used when the step is the return of the fetch), and the
  destructor's \<^verbatim>\<open>m_weatherThreadStop.store(true)\<close>.
\<close>

datatype weather_event = Request | Worker fetch_env | Stop

fun weather_step :: "weather_event \<Rightarrow> weather_sys \<Rightarrow> weather_sys" where
  "weather_step Request s =
     s\<lparr>monitor := RequestWeatherRefresh (monitor s),
       accepted := accepted s + (if m_weatherLoading (monitor s) then 0 else 1)\<rparr>"
| "weather_step (Worker e) s = worker_step e s"
| "weather_step Stop s = s\<lparr>monitor := (monitor s)\<lparr>m_weatherThreadStop := True\<rparr>\<rparr>"

fun weather_run :: "weather_event list \<Rightarrow> weather_sys \<Rightarrow> weather_sys" where
  "weather_run [] s = s"
| "weather_run (ev # evs) s = weather_run evs (weather_step ev s)"

text \<open>The system when the constructor returns: the worker thread is at the head of its loop.\<close>

definition weather_sys_init :: "proc_stat option \<Rightarrow> weather_sys" where
  "weather_sys_init stat =
     \<lparr>monitor = SystemMonitor_ctor stat, worker = At_stop_check, fetch_calls = 0, completions = 0,
      accepted = 0\<rparr>"

text \<open>
  The worker is inside a refresh from the call of the fetch until it has cleared the flag.
  The counters agree when the fetch was called once for every completed refresh and once
  more if the worker is inside one, a request was accepted once for every completed refresh
  and once more if the flag is set, the flag is set while the worker is inside a refresh,
  and the worker has left its loop only with the stop flag set.
\<close>

definition in_cycle :: "weather_sys \<Rightarrow> bool" where
  "in_cycle s \<longleftrightarrow> worker s = In_fetch \<or> worker s = At_clear"

definition counts_agree :: "weather_sys \<Rightarrow> bool" where
  "counts_agree s \<longleftrightarrow>
     fetch_calls s = completions s + (if in_cycle s then 1 else 0) \<and>
     accepted s = completions s + (if m_weatherLoading (monitor s) then 1 else 0) \<and>
     (in_cycle s \<longrightarrow> m_weatherLoading (monitor s)) \<and>
     (worker s = Exited \<longrightarrow> m_weatherThreadStop (monitor s))"

text \<open>
  A run is settled from \<open>c\<close> completed refreshes when at most one more has completed and,
  if it has, the flag is clear and the worker is outside a refresh.
\<close>

definition settled_from :: "nat \<Rightarrow> weather_sys \<Rightarrow> bool" where
  "settled_from c s \<longleftrightarrow>
     counts_agree s \<and> c \<le> completions s \<and> completions s \<le> c + 1 \<and>
     (completions s = c + 1 \<longrightarrow> \<not> m_weatherLoading (monitor s) \<and> \<not> in_cycle s)"

text \<open>
  The number of steps the worker needs from a position of its loop until it has cleared the
  flag, when the flag is set and the stop flag is not. A run of a worker that is not stopped
  is progressing from \<open>c\<close> completed refreshes within \<open>n\<close> steps when either the refresh
  after them is pending and the worker is at most \<open>n\<close> steps from clearing the flag, or
  that refresh has completed, the flag is clear and the worker is outside a refresh.
\<close>

fun steps_to_clear :: "worker_pc \<Rightarrow> nat" where
  "steps_to_clear At_sleep = 5"
| "steps_to_clear At_stop_check = 4"
| "steps_to_clear At_loading_check = 3"
| "steps_to_clear In_fetch = 2"
| "steps_to_clear At_clear = 1"
| "steps_to_clear Exited = 0"

definition progressing :: "nat \<Rightarrow> nat \<Rightarrow> weather_sys \<Rightarrow> bool" where
  "progressing c n s \<longleftrightarrow>
     counts_agree s \<and> \<not> m_weatherThreadStop (monitor s) \<and>
     ((completions s = c \<and> m_weatherLoading (monitor s) \<and> worker s \<noteq> Exited \<and>
       steps_to_clear (worker s) \<le> n) \<or>
      (completions s = c + 1 \<and> \<not> m_weatherLoading (monitor s) \<and> \<not> in_cycle s))"

subsection \<open>The hardware lock, interleaved\<close>

text \<open>
  The statements that touch \<^verbatim>\<open>m_hwStats\<close> and \<^verbatim>\<open>m_cpuHistory\<close>, as the sequences of
  steps that a thread makes: the locked block of \<^verbatim>\<open>UpdateHardware\<close> (lines 140-147),
  \<^verbatim>\<open>GetHardwareStats\<close> (lines 79-82) and \<^verbatim>\<open>GetCpuHistory\<close> (SystemMonitor.h, line 39).
\<close>

datatype hw_op =
    Lock_hwMutex
  | Unlock_hwMutex
  | Store_hwStats HardwareStats
  | Erase_begin_if_full
  | Push_back real
  | Read_hwStats
  | Read_cpuHistory

definition UpdateHardware_ops :: "HardwareStats \<Rightarrow> real \<Rightarrow> hw_op list" where
  "UpdateHardware_ops stats cpu =
     [Lock_hwMutex, Store_hwStats stats, Erase_begin_if_full, Push_back cpu, Unlock_hwMutex]"

definition GetHardwareStats_ops :: "hw_op list" where
  "GetHardwareStats_ops = [Lock_hwMutex, Read_hwStats, Unlock_hwMutex]"

definition GetCpuHistory_ops :: "hw_op list" where
  "GetCpuHistory_ops = [Read_cpuHistory]"

datatype hw_thread = Driver | Reader

text \<open>
  The object, the owner of \<^verbatim>\<open>m_hwMutex\<close>, the steps each thread has still to make, and
  what the reader has obtained.
\<close>

record hw_sys =
  object :: SystemMonitor
  hw_owner :: "hw_thread option"
  driver_ops :: "hw_op list"
  reader_ops :: "hw_op list"
  seen_hwStats :: "HardwareStats option"
  seen_cpuHistory :: "real list option"

definition ops_of :: "hw_thread \<Rightarrow> hw_sys \<Rightarrow> hw_op list" where
  "ops_of t s = (case t of Driver \<Rightarrow> driver_ops s | Reader \<Rightarrow> reader_ops s)"

definition advance :: "hw_thread \<Rightarrow> hw_sys \<Rightarrow> hw_sys" where
  "advance t s =
     (case t of Driver \<Rightarrow> s\<lparr>driver_ops := tl (driver_ops s)\<rparr>
              | Reader \<Rightarrow> s\<lparr>reader_ops := tl (reader_ops s)\<rparr>)"

text \<open>
  One step of a thread. A thread that has finished does nothing; a thread at
  \<open>Lock_hwMutex\<close> waits (the state stays as it is) while the mutex has an owner.
\<close>

definition hw_step :: "hw_thread \<Rightarrow> hw_sys \<Rightarrow> hw_sys" where
  "hw_step t s =
     (case ops_of t s of
        [] \<Rightarrow> s
      | op # _ \<Rightarrow>
          (case op of
             Lock_hwMutex \<Rightarrow>
               if hw_owner s = None then advance t (s\<lparr>hw_owner := Some t\<rparr>) else s
           | Unlock_hwMutex \<Rightarrow> advance t (s\<lparr>hw_owner := None\<rparr>)
           | Store_hwStats stats \<Rightarrow> advance t (s\<lparr>object := (object s)\<lparr>m_hwStats := stats\<rparr>\<rparr>)
           | Erase_begin_if_full \<Rightarrow>
               advance t (s\<lparr>object := (object s)\<lparr>m_cpuHistory :=
                 (if length (m_cpuHistory (object s)) \<ge> MaxHistory
                  then tl (m_cpuHistory (object s)) else m_cpuHistory (object s))\<rparr>\<rparr>)
           | Push_back cpu \<Rightarrow>
               advance t (s\<lparr>object := (object s)\<lparr>m_cpuHistory := m_cpuHistory (object s) @ [cpu]\<rparr>\<rparr>)
           | Read_hwStats \<Rightarrow> advance t (s\<lparr>seen_hwStats := Some (m_hwStats (object s))\<rparr>)
           | Read_cpuHistory \<Rightarrow>
               advance t (s\<lparr>seen_cpuHistory := Some (m_cpuHistory (object s))\<rparr>)))"

fun hw_run :: "hw_thread list \<Rightarrow> hw_sys \<Rightarrow> hw_sys" where
  "hw_run [] s = s"
| "hw_run (t # ts) s = hw_run ts (hw_step t s)"

text \<open>The driver is about to run the locked block of a tick while a reader calls an accessor.\<close>

definition hw_sys_start :: "SystemMonitor \<Rightarrow> HardwareStats \<Rightarrow> real \<Rightarrow> hw_op list \<Rightarrow> hw_sys" where
  "hw_sys_start m stats cpu accessor =
     \<lparr>object = m, hw_owner = None, driver_ops = UpdateHardware_ops stats cpu,
      reader_ops = accessor, seen_hwStats = None, seen_cpuHistory = None\<rparr>"

text \<open>A monitor whose history is full, and the snapshot of the tick that finds it so.\<close>

definition full_monitor :: SystemMonitor where
  "full_monitor = SystemMonitor_members\<lparr>m_cpuHistory := replicate MaxHistory 0\<rparr>"

definition new_stats :: HardwareStats where
  "new_stats = \<lparr>cpuLoadPercent = 50, ramUsedGB = 0, ramTotalGB = 0\<rparr>"

subsection \<open>The notions of the specification\<close>

text \<open>
  A string contains another one when the other occurs in it as a contiguous piece. Two
  characters are the same letter when they are equal or one is the upper-case and the other
  the lower-case form of one ASCII letter; a string contains another one regardless of case
  when a piece of it agrees with the other one letter by letter.
\<close>

definition same_letter :: "char \<Rightarrow> char \<Rightarrow> bool" where
  "same_letter c d \<longleftrightarrow>
     c = d \<or>
     (isupper_c c \<and> (of_char d :: nat) = of_char c + 32) \<or>
     (isupper_c d \<and> (of_char c :: nat) = of_char d + 32)"

definition contains_ignoring_case :: "string \<Rightarrow> string \<Rightarrow> bool" where
  "contains_ignoring_case s t \<longleftrightarrow> (\<exists>u. sublist u s \<and> list_all2 same_letter u t)"

definition matches_filter :: "string \<Rightarrow> ProcessInfo \<Rightarrow> bool" where
  "matches_filter flt p \<longleftrightarrow>
     contains_ignoring_case (name p) flt \<or> sublist flt (to_string (pid p))"

text \<open>
  An observation of the counters is the pair of the total and the idle jiffies. The baseline
  of a monitor is the observation it keeps. A read of \<^verbatim>\<open>/proc/stat\<close> that yields a
  \<^verbatim>\<open>cpu\<close> line replaces the observation kept so far, any other read leaves it; the last
  observation of a sequence of reads, in the order they were made, is what remains when one
  starts from the zero counters. The load of a read since an observation is 0 when the read
  yields no \<^verbatim>\<open>cpu\<close> line or no jiffy has elapsed, and otherwise the share of the elapsed
  jiffies that were not idle, in percent.
\<close>

definition baseline :: "SystemMonitor \<Rightarrow> 64 word \<times> 64 word" where
  "baseline m = (m_lastTotalJiffies m, m_lastIdleJiffies m)"

definition observe :: "64 word \<times> 64 word \<Rightarrow> proc_stat option \<Rightarrow> 64 word \<times> 64 word" where
  "observe b stat =
     (case stat of
        None \<Rightarrow> b
      | Some st \<Rightarrow> if cpuLabel st = ''cpu'' then (total st, idleAll st) else b)"

definition last_observation :: "proc_stat option list \<Rightarrow> 64 word \<times> 64 word" where
  "last_observation reads = foldl observe (0, 0) reads"

definition load_since :: "64 word \<times> 64 word \<Rightarrow> proc_stat option \<Rightarrow> real" where
  "load_since b stat =
     (case stat of
        None \<Rightarrow> 0
      | Some st \<Rightarrow>
          if cpuLabel st = ''cpu''
          then (let totalDiff = total st - fst b;
                    idleDiff = idleAll st - snd b
                in if totalDiff = 0 then 0
                   else 100 * real (unat (totalDiff - idleDiff)) / real (unat totalDiff))
          else 0)"

text \<open>
  A fetch fails when there is no transfer handle, the transfer reports an error (a timeout
  is one), the body is not JSON, or the field \<^verbatim>\<open>current_weather\<close> is missing.
\<close>

definition fetch_fails :: "fetch_env \<Rightarrow> bool" where
  "fetch_fails e \<longleftrightarrow>
     \<not> curl_init_ok e \<or> curl_res e \<noteq> 0 \<or>
     (case parsed_body e of None \<Rightarrow> True | Some j \<Rightarrow> \<not> json_contains j ''current_weather'')"

text \<open>
  The response has the required fields when it is an object whose member
  \<^verbatim>\<open>current_weather\<close> is an object with the members \<^verbatim>\<open>temperature\<close>, \<^verbatim>\<open>windspeed\<close> and
  \<^verbatim>\<open>weathercode\<close>.
\<close>

definition has_required_fields :: "json \<Rightarrow> bool" where
  "has_required_fields j \<longleftrightarrow>
     (case j of
        JObject kvs \<Rightarrow>
          (case map_of kvs ''current_weather'' of
             Some (JObject fs) \<Rightarrow>
               map_of fs ''temperature'' \<noteq> None \<and>
               map_of fs ''windspeed'' \<noteq> None \<and>
               map_of fs ''weathercode'' \<noteq> None
           | _ \<Rightarrow> False)
      | _ \<Rightarrow> False)"

text \<open>
  The response is accepted when it is an object whose member \<^verbatim>\<open>current_weather\<close> is an
  object in which \<^verbatim>\<open>temperature\<close> and \<^verbatim>\<open>windspeed\<close> are each missing or a number, and
  \<^verbatim>\<open>weathercode\<close> is missing, a number or a boolean.
\<close>

definition is_number :: "json \<Rightarrow> bool" where
  "is_number v = (case v of JInteger _ \<Rightarrow> True | JFloat _ \<Rightarrow> True | _ \<Rightarrow> False)"

definition is_number_or_bool :: "json \<Rightarrow> bool" where
  "is_number_or_bool v = (case v of JBool _ \<Rightarrow> True | _ \<Rightarrow> is_number v)"

definition missing_or :: "(json \<Rightarrow> bool) \<Rightarrow> (string \<times> json) list \<Rightarrow> string \<Rightarrow> bool" where
  "missing_or ok fs key = (case map_of fs key of None \<Rightarrow> True | Some v \<Rightarrow> ok v)"

definition accepted_response :: "json \<Rightarrow> bool" where
  "accepted_response j \<longleftrightarrow>
     (case j of
        JObject kvs \<Rightarrow>
          (case map_of kvs ''current_weather'' of
             Some (JObject fs) \<Rightarrow>
               missing_or is_number fs ''temperature'' \<and>
               missing_or is_number fs ''windspeed'' \<and>
               missing_or is_number_or_bool fs ''weathercode''
           | _ \<Rightarrow> False)
      | _ \<Rightarrow> False)"

section \<open>Properties\<close>

subsection \<open>The CPU history\<close>

lemma most_recent_append: "most_recent n (most_recent n xs @ ys) = most_recent n (xs @ ys)"
proof (cases "n \<le> length xs")
  case True
  then show ?thesis by (simp add: most_recent_def add.commute)
next
  case False
  then show ?thesis by (simp add: most_recent_def)
qed

lemma length_most_recent: "length (most_recent n xs) = min n (length xs)"
  by (simp add: most_recent_def)

lemma push_history_most_recent:
  assumes "length h \<le> MaxHistory"
  shows "(if length h \<ge> MaxHistory then tl h else h) @ [c] = most_recent MaxHistory (h @ [c])"
proof (cases "length h \<ge> MaxHistory")
  case True
  with assms have len: "length h = MaxHistory" by simp
  then have "h \<noteq> []" by (auto simp: MaxHistory_def)
  then have "drop 1 (h @ [c]) = tl h @ [c]" by (cases h) simp_all
  with len True show ?thesis by (simp add: most_recent_def)
next
  case False
  then show ?thesis by (simp add: most_recent_def)
qed

lemma UpdateHardware_history:
  "m_cpuHistory (UpdateHardware stat si m) =
     (if length (m_cpuHistory m) \<ge> MaxHistory then tl (m_cpuHistory m) else m_cpuHistory m)
       @ [fst (SampleCpuUsage stat m)]"
  by (simp add: UpdateHardware_def SampleCpuUsage_def Let_def split: option.splits prod.splits)

lemma Update_history:
  "m_cpuHistory (Update e m) =
     (if length (m_cpuHistory m) \<ge> MaxHistory then tl (m_cpuHistory m) else m_cpuHistory m)
       @ [fst (SampleCpuUsage (env_stat e) m)]"
  by (simp add: Update_def UpdateHardware_history)

lemma Update_at_capacity:
  "length (m_cpuHistory m) = MaxHistory \<Longrightarrow>
   m_cpuHistory (Update e m) = tl (m_cpuHistory m) @ [fst (SampleCpuUsage (env_stat e) m)]"
  by (simp add: Update_history)

lemma length_cpu_samples: "length (cpu_samples es m) = length es"
  by (induction es arbitrary: m) simp_all

lemma Updates_history:
  "length (m_cpuHistory m) \<le> MaxHistory \<Longrightarrow>
   m_cpuHistory (Updates es m) = most_recent MaxHistory (m_cpuHistory m @ cpu_samples es m)"
proof (induction es arbitrary: m)
  case Nil
  then show ?case by (simp add: most_recent_def)
next
  case (Cons e es)
  let ?h = "m_cpuHistory m" and ?c = "fst (SampleCpuUsage (env_stat e) m)"
  let ?s = "cpu_samples es (Update e m)"
  have step: "m_cpuHistory (Update e m) = most_recent MaxHistory (?h @ [?c])"
    using push_history_most_recent [OF Cons.prems] by (simp add: Update_history)
  then have len: "length (m_cpuHistory (Update e m)) \<le> MaxHistory"
    by (simp add: length_most_recent)
  have "m_cpuHistory (Updates (e # es) m) =
        most_recent MaxHistory (m_cpuHistory (Update e m) @ ?s)"
    using Cons.IH [OF len] by simp
  also have "\<dots> = most_recent MaxHistory ((?h @ [?c]) @ ?s)"
    unfolding step by (rule most_recent_append)
  finally show ?case by simp
qed

lemma ctor_history: "m_cpuHistory (SystemMonitor_ctor stat) = []"
  by (simp add: SystemMonitor_ctor_def SampleCpuUsage_def SystemMonitor_members_def Let_def split: option.splits)

text \<open>
  Claim C1. Start from a freshly constructed monitor and call \<open>Update\<close> any number of
  times. The CPU history then never holds more than \<open>MaxHistory = 256\<close> samples: it holds
  as many as there were ticks, up to 256. It is the list of the most recent 256 samples
  that the ticks obtained, oldest first, so once there were more than 256 ticks it is
  exactly the last 256 of them in chronological order.
\<close>

theorem cpu_history_bounded_fifo:
  "length (m_cpuHistory (Updates es (SystemMonitor_ctor stat0))) \<le> MaxHistory \<and>
   length (m_cpuHistory (Updates es (SystemMonitor_ctor stat0))) = min (length es) MaxHistory \<and>
   length (cpu_samples es (SystemMonitor_ctor stat0)) = length es \<and>
   m_cpuHistory (Updates es (SystemMonitor_ctor stat0)) =
     most_recent MaxHistory (cpu_samples es (SystemMonitor_ctor stat0)) \<and>
   MaxHistory = 256"
  using Updates_history [of "SystemMonitor_ctor stat0" es]
  by (simp add: ctor_history length_cpu_samples length_most_recent min.commute)
    (simp add: MaxHistory_def)

subsection \<open>Process enumeration that fails\<close>

lemma Update_cache: "m_processesCache (Update e m) = QueryProcesses (env_ps e)"
  by (simp add: Update_def)

text \<open>
  Claim C10. When the enumeration of a tick fails as a whole, that is when \<^verbatim>\<open>popen\<close>
  gives no pipe, \<open>Update\<close> still assigns the cache: the cache is the empty list afterwards,
  whatever it held before.
\<close>

theorem Update_enumeration_failed_empties_cache:
  "env_ps e = None \<Longrightarrow> m_processesCache (Update e m) = []"
  by (simp add: Update_cache QueryProcesses_def)

theorem Update_enumeration_failed_empties_cache_witness:
  "env_ps \<lparr>env_stat = None, env_sysinfo = None, env_ps = None\<rparr> = None \<and>
   m_processesCache (SystemMonitor_members\<lparr>m_processesCache := [\<lparr>pid = 1, name = ''init''\<rparr>]\<rparr>)
     = [\<lparr>pid = 1, name = ''init''\<rparr>] \<and>
   m_processesCache
     (Update \<lparr>env_stat = None, env_sysinfo = None, env_ps = None\<rparr>
        (SystemMonitor_members\<lparr>m_processesCache := [\<lparr>pid = 1, name = ''init''\<rparr>]\<rparr>)) = []"
  using Update_enumeration_failed_empties_cache
    [of "\<lparr>env_stat = None, env_sysinfo = None, env_ps = None\<rparr>"
        "SystemMonitor_members\<lparr>m_processesCache := [\<lparr>pid = 1, name = ''init''\<rparr>]\<rparr>"]
  by simp

subsection \<open>Termination that fails\<close>

text \<open>
  Claim C5. For every pid on which termination fails (\<^verbatim>\<open>kill\<close> returns a non-zero value,
  as it does for a pid that does not exist), \<open>TerminateProcess\<close> returns \<open>False\<close> together
  with a reason that is not empty: the text \<^verbatim>\<open>kill(SIGTERM) failed: \<close> followed by the
  system's message. It returns normally, with the object as it was, so the process cache is
  unchanged; the cache changes with the next \<open>Update\<close>, which assigns it the result of a
  new enumeration.
\<close>

theorem TerminateProcess_failure:
  "fst (sys_kill p) \<noteq> 0 \<Longrightarrow>
   TerminateProcess sys_kill p errorMessage m =
     ((False, ''kill(SIGTERM) failed: '' @ snd (sys_kill p)), m) \<and>
   snd (fst (TerminateProcess sys_kill p errorMessage m)) \<noteq> [] \<and>
   m_processesCache (snd (TerminateProcess sys_kill p errorMessage m)) = m_processesCache m \<and>
   m_processesCache (Update e (snd (TerminateProcess sys_kill p errorMessage m)))
     = QueryProcesses (env_ps e)"
  by (simp add: TerminateProcess_def Update_cache)

theorem TerminateProcess_failure_witness:
  "fst ((\<lambda>p. (- 1, ''No such process'')) (424242 :: int)) \<noteq> (0 :: int) \<and>
   TerminateProcess (\<lambda>p. (- 1, ''No such process'')) 424242 ''''
       (SystemMonitor_members\<lparr>m_processesCache := [\<lparr>pid = 1, name = ''init''\<rparr>]\<rparr>) =
     ((False, ''kill(SIGTERM) failed: No such process''),
      SystemMonitor_members\<lparr>m_processesCache := [\<lparr>pid = 1, name = ''init''\<rparr>]\<rparr>)"
  using TerminateProcess_failure
    [of "\<lambda>p. (- 1, ''No such process'')" 424242 "''''"
        "SystemMonitor_members\<lparr>m_processesCache := [\<lparr>pid = 1, name = ''init''\<rparr>]\<rparr>"]
  by simp

subsection \<open>Weather fetches\<close>

lemma weather_reset_None: "m_weather (weather_reset m) = None"
  by (simp add: weather_reset_def)

lemma to_string_0: "to_string 0 = ''0''"
  by (simp add: to_string_def nat_to_string.simps digit_char_def char_of_eq_iff)

text \<open>
  Claim C3. After a fetch attempt that fails (no transfer handle, a network error or a
  timeout, a body that is not JSON, or a body without the required field
  \<^verbatim>\<open>current_weather\<close>) \<open>GetWeather\<close> returns nothing, whatever reading the monitor held
  before the attempt.
\<close>

theorem failed_fetch_clears_weather:
  "fetch_fails e \<Longrightarrow> GetWeather (FetchWeatherBlocking e m) = None"
  by (auto simp: fetch_fails_def GetWeather_def FetchWeatherBlocking_def weather_reset_None
      split: option.splits)

theorem failed_fetch_clears_weather_witness:
  "fetch_fails \<lparr>curl_init_ok = True, curl_res = 28, parsed_body = None, clock_now = 5\<rparr> \<and>
   GetWeather (SystemMonitor_members\<lparr>m_weather := Some
       \<lparr>summary = ''Code 3'', temperatureC = 21, windKph = 9, lastUpdated = 1\<rparr>\<rparr>)
     = Some \<lparr>summary = ''Code 3'', temperatureC = 21, windKph = 9, lastUpdated = 1\<rparr> \<and>
   GetWeather (FetchWeatherBlocking
      \<lparr>curl_init_ok = True, curl_res = 28, parsed_body = None, clock_now = 5\<rparr>
      (SystemMonitor_members\<lparr>m_weather := Some
         \<lparr>summary = ''Code 3'', temperatureC = 21, windKph = 9, lastUpdated = 1\<rparr>\<rparr>)) = None"
proof -
  have f: "fetch_fails \<lparr>curl_init_ok = True, curl_res = 28, parsed_body = None, clock_now = 5\<rparr>"
    by (simp add: fetch_fails_def)
  show ?thesis
    using f failed_fetch_clears_weather [OF f] by (simp add: GetWeather_def)
qed

lemma get_double_Some_iff: "json_get_double v \<noteq> None \<longleftrightarrow> is_number v"
  by (cases v) (simp_all add: json_get_double_def is_number_def)

lemma get_int_Some_iff: "json_get_int v \<noteq> None \<longleftrightarrow> is_number_or_bool v"
  by (cases v) (simp_all add: json_get_int_def is_number_or_bool_def is_number_def)

lemma json_value_object:
  "json_value conv (JObject fs) key dflt \<noteq> None \<longleftrightarrow> missing_or (\<lambda>v. conv v \<noteq> None) fs key"
  by (simp add: json_value_def missing_or_def split: option.splits)

lemma json_value_not_object:
  "(\<And>fs. cw \<noteq> JObject fs) \<Longrightarrow> json_value conv cw key dflt = None"
  by (cases cw) (auto simp: json_value_def)

lemma json_value_missing:
  "map_of fs key = None \<Longrightarrow> json_value conv (JObject fs) key dflt = Some dflt"
  by (simp add: json_value_def)

lemma fetch_body_stores_iff:
  assumes "curl_init_ok e" "curl_res e = 0" "parsed_body e = Some j"
  shows "m_weather (FetchWeatherBlocking e m) \<noteq> None \<longleftrightarrow> accepted_response j"
proof (cases j)
  case (JObject kvs)
  show ?thesis
  proof (cases "map_of kvs ''current_weather''")
    case None
    with JObject assms show ?thesis
      by (simp add: FetchWeatherBlocking_def json_contains_def accepted_response_def weather_reset_None)
  next
    case (Some cw)
    show ?thesis
    proof (cases "\<exists>fs. cw = JObject fs")
      case True
      then obtain fs where cw: "cw = JObject fs" by blast
      have t: "json_value json_get_double (JObject fs) ''temperature'' 0 \<noteq> None
                 \<longleftrightarrow> missing_or is_number fs ''temperature''"
        by (simp only: json_value_object get_double_Some_iff)
      have w: "json_value json_get_double (JObject fs) ''windspeed'' 0 \<noteq> None
                 \<longleftrightarrow> missing_or is_number fs ''windspeed''"
        by (simp only: json_value_object get_double_Some_iff)
      have c: "json_value json_get_int (JObject fs) ''weathercode'' 0 \<noteq> None
                 \<longleftrightarrow> missing_or is_number_or_bool fs ''weathercode''"
        by (simp only: json_value_object get_int_Some_iff)
      from JObject Some cw assms t w c show ?thesis
        by (auto simp: FetchWeatherBlocking_def json_contains_def json_at_def
            accepted_response_def weather_reset_None split: option.splits)
    next
      case False
      then have "json_value json_get_double cw ''temperature'' 0 = None"
        by (intro json_value_not_object) blast
      moreover from False have "\<not> accepted_response j"
        using JObject Some by (cases cw) (simp_all add: accepted_response_def)
      ultimately show ?thesis
        using JObject Some assms
        by (simp add: FetchWeatherBlocking_def json_contains_def json_at_def weather_reset_None)
    qed
  qed
qed (use assms in \<open>simp_all add: FetchWeatherBlocking_def json_contains_def
      accepted_response_def weather_reset_None\<close>)

lemma fetch_missing_fields_default:
  assumes "parsed_body e = Some (JObject kvs)"
    and "map_of kvs ''current_weather'' = Some (JObject fs)"
    and "m_weather (FetchWeatherBlocking e m) = Some r"
  shows "(map_of fs ''temperature'' = None \<longrightarrow> temperatureC r = 0) \<and>
         (map_of fs ''windspeed'' = None \<longrightarrow> windKph r = 0) \<and>
         (map_of fs ''weathercode'' = None \<longrightarrow> summary r = ''Code 0'')"
  using assms
  by (auto simp: FetchWeatherBlocking_def json_contains_def json_at_def weather_reset_def
      json_value_missing to_string_0 split: option.splits if_splits)

text \<open>
  Claim C6, as stated, fails: a body whose \<^verbatim>\<open>current_weather\<close> object has none of the
  fields \<^verbatim>\<open>temperature\<close>, \<^verbatim>\<open>windspeed\<close> and \<^verbatim>\<open>weathercode\<close> makes the fetch store a
  reading, built from the default 0 of each field.
\<close>

theorem reading_from_incomplete_fields:
  "parsed_body \<lparr>curl_init_ok = True, curl_res = 0,
      parsed_body = Some (JObject [(''current_weather'', JObject [])]), clock_now = 7\<rparr>
     = Some (JObject [(''current_weather'', JObject [])]) \<and>
   \<not> has_required_fields (JObject [(''current_weather'', JObject [])]) \<and>
   GetWeather (FetchWeatherBlocking
      \<lparr>curl_init_ok = True, curl_res = 0,
       parsed_body = Some (JObject [(''current_weather'', JObject [])]), clock_now = 7\<rparr>
      SystemMonitor_members)
     = Some \<lparr>summary = ''Code 0'', temperatureC = 0, windKph = 0, lastUpdated = 7\<rparr>"
  by (simp add: has_required_fields_def GetWeather_def FetchWeatherBlocking_def
      json_contains_def json_at_def json_value_def to_string_0)


text \<open>
  Claim C6, amended. A fetch stores a reading exactly when there is a transfer handle, the
  transfer succeeds, the body parses as JSON and is an object whose member
  \<^verbatim>\<open>current_weather\<close> is an object in which \<^verbatim>\<open>temperature\<close> and \<^verbatim>\<open>windspeed\<close> are each
  missing or a number and \<^verbatim>\<open>weathercode\<close> is missing, a number or a boolean; in every other
  case it stores no reading. A missing field of that object does not make the fetch fail: the
  reading gets the default in its place (temperature 0, wind 0, summary \<^verbatim>\<open>Code 0\<close>).
\<close>

theorem fetch_stores_reading_iff:
  "(GetWeather (FetchWeatherBlocking e m) \<noteq> None \<longleftrightarrow>
      curl_init_ok e \<and> curl_res e = 0 \<and> (\<exists>j. parsed_body e = Some j \<and> accepted_response j)) \<and>
   (\<forall>kvs fs r. parsed_body e = Some (JObject kvs) \<longrightarrow>
      map_of kvs ''current_weather'' = Some (JObject fs) \<longrightarrow>
      GetWeather (FetchWeatherBlocking e m) = Some r \<longrightarrow>
        (map_of fs ''temperature'' = None \<longrightarrow> temperatureC r = 0) \<and>
        (map_of fs ''windspeed'' = None \<longrightarrow> windKph r = 0) \<and>
        (map_of fs ''weathercode'' = None \<longrightarrow> summary r = ''Code 0''))"
proof (intro conjI allI impI)
  show "GetWeather (FetchWeatherBlocking e m) \<noteq> None \<longleftrightarrow>
      curl_init_ok e \<and> curl_res e = 0 \<and> (\<exists>j. parsed_body e = Some j \<and> accepted_response j)"
  proof (cases "curl_init_ok e \<and> curl_res e = 0 \<and> parsed_body e \<noteq> None")
    case True
    then obtain j where "parsed_body e = Some j" by blast
    with True fetch_body_stores_iff [of e j m] show ?thesis
      by (simp add: GetWeather_def)
  next
    case False
    then have "m_weather (FetchWeatherBlocking e m) = None"
      by (auto simp: FetchWeatherBlocking_def weather_reset_None)
    with False show ?thesis by (auto simp: GetWeather_def)
  qed
next
  fix kvs fs r
  assume "parsed_body e = Some (JObject kvs)"
    and "map_of kvs ''current_weather'' = Some (JObject fs)"
    and "GetWeather (FetchWeatherBlocking e m) = Some r"
  then have *: "(map_of fs ''temperature'' = None \<longrightarrow> temperatureC r = 0) \<and>
         (map_of fs ''windspeed'' = None \<longrightarrow> windKph r = 0) \<and>
         (map_of fs ''weathercode'' = None \<longrightarrow> summary r = ''Code 0'')"
    using fetch_missing_fields_default [of e kvs fs m r] by (simp add: GetWeather_def)
  { assume "map_of fs ''temperature'' = None" with * show "temperatureC r = 0" by blast }
  { assume "map_of fs ''windspeed'' = None" with * show "windKph r = 0" by blast }
  { assume "map_of fs ''weathercode'' = None" with * show "summary r = ''Code 0''" by blast }
qed

theorem fetch_stores_reading_iff_witness:
  "curl_init_ok \<lparr>curl_init_ok = True, curl_res = 0,
       parsed_body = Some (JObject [(''current_weather'', JObject [(''temperature'', JInteger 21)])]),
       clock_now = 9\<rparr> \<and>
   accepted_response (JObject [(''current_weather'', JObject [(''temperature'', JInteger 21)])]) \<and>
   GetWeather (FetchWeatherBlocking
      \<lparr>curl_init_ok = True, curl_res = 0,
       parsed_body = Some (JObject [(''current_weather'', JObject [(''temperature'', JInteger 21)])]),
       clock_now = 9\<rparr> SystemMonitor_members) \<noteq> None \<and>
   GetWeather (FetchWeatherBlocking
      \<lparr>curl_init_ok = True, curl_res = 0,
       parsed_body = Some (JObject [(''current_weather'', JString ''rain'')]),
       clock_now = 9\<rparr> SystemMonitor_members) = None"
  using fetch_stores_reading_iff
    [of "\<lparr>curl_init_ok = True, curl_res = 0,
       parsed_body = Some (JObject [(''current_weather'', JObject [(''temperature'', JInteger 21)])]),
       clock_now = 9\<rparr>" SystemMonitor_members]
    fetch_stores_reading_iff
    [of "\<lparr>curl_init_ok = True, curl_res = 0,
       parsed_body = Some (JObject [(''current_weather'', JString ''rain'')]),
       clock_now = 9\<rparr>" SystemMonitor_members]
  by (simp add: accepted_response_def missing_or_def is_number_def)


subsection \<open>The first CPU sample\<close>

lemma SampleCpuUsage_cpu:
  "cpuLabel st = ''cpu'' \<Longrightarrow>
   SampleCpuUsage (Some st) m =
     ((if total st - m_lastTotalJiffies m = 0 then 0
       else 100 * real (unat ((total st - m_lastTotalJiffies m) - (idleAll st - m_lastIdleJiffies m)))
              / real (unat (total st - m_lastTotalJiffies m))),
      m\<lparr>m_lastTotalJiffies := total st, m_lastIdleJiffies := idleAll st\<rparr>)"
  by (simp add: SampleCpuUsage_def Let_def)

lemma UpdateHardware_cpuLoad:
  "cpuLoadPercent (m_hwStats (UpdateHardware stat si m)) = fst (SampleCpuUsage stat m)"
  by (simp add: UpdateHardware_def SampleRamUsage_def Let_def split: prod.splits option.splits)

text \<open>
  Claim C7, as stated, fails. The first call of \<open>SampleCpuUsage\<close> after startup is the one
  the constructor makes, with both baseline members still 0: on counters of which half
  are idle it returns 50, not 0. The first sample that is reported (by the first \<open>Update\<close>)
  is not 0 either: it is the load since the constructor's observation, here 25.
\<close>

theorem first_sample_not_zero:
  "m_lastTotalJiffies SystemMonitor_members = 0 \<and>
   m_lastIdleJiffies SystemMonitor_members = 0 \<and>
   fst (SampleCpuUsage
     (Some \<lparr>cpuLabel = ''cpu'', user = 100, nice = 0, system = 100, idle = 200,
            iowait = 0, irq = 0, softirq = 0, steal = 0\<rparr>) SystemMonitor_members) = 50 \<and>
   cpuLoadPercent (GetHardwareStats (Update
     \<lparr>env_stat = Some \<lparr>cpuLabel = ''cpu'', user = 125, nice = 0, system = 100, idle = 275,
            iowait = 0, irq = 0, softirq = 0, steal = 0\<rparr>, env_sysinfo = None, env_ps = None\<rparr>
     (SystemMonitor_ctor
       (Some \<lparr>cpuLabel = ''cpu'', user = 100, nice = 0, system = 100, idle = 200,
            iowait = 0, irq = 0, softirq = 0, steal = 0\<rparr>)))) = 25"
  by (simp add: SampleCpuUsage_cpu SystemMonitor_ctor_def SystemMonitor_members_def
      GetHardwareStats_def Update_def UpdateHardware_cpuLoad total_def idleAll_def nonIdle_def)

lemma SampleCpuUsage_load_since: "fst (SampleCpuUsage stat m) = load_since (baseline m) stat"
  by (simp add: SampleCpuUsage_def load_since_def baseline_def Let_def split: option.splits)

lemma SampleCpuUsage_observe: "baseline (snd (SampleCpuUsage stat m)) = observe (baseline m) stat"
  by (simp add: SampleCpuUsage_def observe_def baseline_def Let_def split: option.splits)

lemma UpdateHardware_baseline:
  "baseline (UpdateHardware stat si m) = baseline (snd (SampleCpuUsage stat m))"
  by (simp add: UpdateHardware_def baseline_def Let_def split: prod.splits)

lemma Update_baseline: "baseline (Update e m) = observe (baseline m) (env_stat e)"
proof -
  have "baseline (Update e m) = baseline (UpdateHardware (env_stat e) (env_sysinfo e) m)"
    by (simp add: Update_def baseline_def)
  then show ?thesis
    by (simp add: UpdateHardware_baseline SampleCpuUsage_observe)
qed

lemma ctor_baseline: "baseline (SystemMonitor_ctor stat) = last_observation [stat]"
  by (simp add: SystemMonitor_ctor_def SampleCpuUsage_observe last_observation_def)
    (simp add: baseline_def SystemMonitor_members_def)

lemma ctor_hwStats: "m_hwStats (SystemMonitor_ctor stat) = HardwareStats_default"
  by (simp add: SystemMonitor_ctor_def SampleCpuUsage_def SystemMonitor_members_def Let_def
      split: option.splits)

lemma cpu_samples_nth:
  "k < length es \<Longrightarrow>
   cpu_samples es m ! k =
     load_since (foldl observe (baseline m) (map env_stat (take k es))) (env_stat (es ! k))"
proof (induction es arbitrary: m k)
  case Nil
  then show ?case by simp
next
  case (Cons e es)
  show ?case
  proof (cases k)
    case 0
    then show ?thesis by (simp add: SampleCpuUsage_load_since)
  next
    case (Suc j)
    with Cons.prems have "j < length es" by simp
    then have "cpu_samples es (Update e m) ! j =
        load_since (foldl observe (baseline (Update e m)) (map env_stat (take j es)))
          (env_stat (es ! j))"
      by (rule Cons.IH)
    with Suc show ?thesis by (simp add: Update_baseline)
  qed
qed

lemma Updates_cpuLoad:
  "es \<noteq> [] \<Longrightarrow> cpuLoadPercent (m_hwStats (Updates es m)) = last (cpu_samples es m)"
proof (induction es arbitrary: m)
  case Nil
  then show ?case by simp
next
  case (Cons e es)
  show ?case
  proof (cases "es = []")
    case True
    then show ?thesis by (simp add: Update_def UpdateHardware_cpuLoad)
  next
    case False
    then have "cpuLoadPercent (m_hwStats (Updates es (Update e m))) =
        last (cpu_samples es (Update e m))"
      by (rule Cons.IH)
    moreover from False have "cpu_samples es (Update e m) \<noteq> []"
      by (cases es) simp_all
    ultimately show ?thesis by simp
  qed
qed

text \<open>
  Claim C7, amended. The very first sampling call after startup is the one the constructor
  makes, against the zero-initialised baseline: its value is the load of the constructor's
  read since the zero counters (0 when the read yields no \<^verbatim>\<open>cpu\<close> line, in general not 0
  when it does). The constructor drops that value, so it is never reported: after
  construction the history is empty and the snapshot holds its defaults. Each \<open>Update\<close>
  makes one later call, and the value of the call of tick \<open>k\<close> is the load of that tick's
  read since the last observation among the constructor's read and the reads of the ticks
  before it: 0 when the tick's read yields no \<^verbatim>\<open>cpu\<close> line, and otherwise the delta between
  the current counters and those of the most recent earlier read that yielded a \<^verbatim>\<open>cpu\<close>
  line (the zero counters when there was none, as after a constructor whose read failed).
  These values are the ones reported: the snapshot holds the value of the last tick and the
  history the most recent 256 of them.
\<close>

theorem cpu_sample_against_last_observation:
  "fst (SampleCpuUsage stat0 SystemMonitor_members) = load_since (0, 0) stat0 \<and>
   GetCpuHistory (SystemMonitor_ctor stat0) = [] \<and>
   GetHardwareStats (SystemMonitor_ctor stat0) = HardwareStats_default \<and>
   (\<forall>k < length es.
      cpu_samples es (SystemMonitor_ctor stat0) ! k =
        load_since (last_observation (stat0 # map env_stat (take k es))) (env_stat (es ! k))) \<and>
   (es \<noteq> [] \<longrightarrow>
      cpuLoadPercent (GetHardwareStats (Updates es (SystemMonitor_ctor stat0))) =
        last (cpu_samples es (SystemMonitor_ctor stat0))) \<and>
   GetCpuHistory (Updates es (SystemMonitor_ctor stat0)) =
     most_recent MaxHistory (cpu_samples es (SystemMonitor_ctor stat0))"
proof (intro conjI allI impI)
  show "fst (SampleCpuUsage stat0 SystemMonitor_members) = load_since (0, 0) stat0"
    by (simp add: SampleCpuUsage_load_since baseline_def SystemMonitor_members_def)
  show "GetCpuHistory (SystemMonitor_ctor stat0) = []"
    by (simp add: GetCpuHistory_def ctor_history)
  show "GetHardwareStats (SystemMonitor_ctor stat0) = HardwareStats_default"
    by (simp add: GetHardwareStats_def ctor_hwStats)
  show "GetCpuHistory (Updates es (SystemMonitor_ctor stat0)) =
     most_recent MaxHistory (cpu_samples es (SystemMonitor_ctor stat0))"
    using Updates_history [of "SystemMonitor_ctor stat0" es]
    by (simp add: GetCpuHistory_def ctor_history)
next
  fix k assume "k < length es"
  then have "cpu_samples es (SystemMonitor_ctor stat0) ! k =
     load_since (foldl observe (baseline (SystemMonitor_ctor stat0)) (map env_stat (take k es)))
       (env_stat (es ! k))"
    by (rule cpu_samples_nth)
  then show "cpu_samples es (SystemMonitor_ctor stat0) ! k =
        load_since (last_observation (stat0 # map env_stat (take k es))) (env_stat (es ! k))"
    by (simp add: ctor_baseline last_observation_def)
next
  assume "es \<noteq> []"
  then show "cpuLoadPercent (GetHardwareStats (Updates es (SystemMonitor_ctor stat0))) =
        last (cpu_samples es (SystemMonitor_ctor stat0))"
    by (simp add: GetHardwareStats_def Updates_cpuLoad)
qed

theorem cpu_sample_against_last_observation_witness:
  "(0 :: nat) < length [\<lparr>env_stat = Some \<lparr>cpuLabel = ''cpu'', user = 125, nice = 0, system = 100, idle = 275, iowait = 0, irq = 0, softirq = 0, steal = 0\<rparr>, env_sysinfo = None, env_ps = None\<rparr>] \<and> [\<lparr>env_stat = Some \<lparr>cpuLabel = ''cpu'', user = 125, nice = 0, system = 100, idle = 275, iowait = 0, irq = 0, softirq = 0, steal = 0\<rparr>, env_sysinfo = None, env_ps = None\<rparr>] \<noteq> [] \<and>
   cpu_samples [\<lparr>env_stat = Some \<lparr>cpuLabel = ''cpu'', user = 125, nice = 0, system = 100, idle = 275, iowait = 0, irq = 0, softirq = 0, steal = 0\<rparr>, env_sysinfo = None, env_ps = None\<rparr>] (SystemMonitor_ctor None) ! 0 = 45 \<and>
   cpu_samples [\<lparr>env_stat = Some \<lparr>cpuLabel = ''cpu'', user = 125, nice = 0, system = 100, idle = 275, iowait = 0, irq = 0, softirq = 0, steal = 0\<rparr>, env_sysinfo = None, env_ps = None\<rparr>] (SystemMonitor_ctor (Some \<lparr>cpuLabel = ''cpu'', user = 100, nice = 0, system = 100, idle = 200, iowait = 0, irq = 0, softirq = 0, steal = 0\<rparr>)) ! 0 = 25 \<and>
   cpuLoadPercent (GetHardwareStats (Updates [\<lparr>env_stat = Some \<lparr>cpuLabel = ''cpu'', user = 125, nice = 0, system = 100, idle = 275, iowait = 0, irq = 0, softirq = 0, steal = 0\<rparr>, env_sysinfo = None, env_ps = None\<rparr>] (SystemMonitor_ctor None))) = 45 \<and>
   GetCpuHistory (Updates [\<lparr>env_stat = Some \<lparr>cpuLabel = ''cpu'', user = 125, nice = 0, system = 100, idle = 275, iowait = 0, irq = 0, softirq = 0, steal = 0\<rparr>, env_sysinfo = None, env_ps = None\<rparr>] (SystemMonitor_ctor None)) = [45]"
proof -
  note failed_priming = cpu_sample_against_last_observation [where ?stat0.0 = None and es = "[\<lparr>env_stat = Some \<lparr>cpuLabel = ''cpu'', user = 125, nice = 0, system = 100, idle = 275, iowait = 0, irq = 0, softirq = 0, steal = 0\<rparr>, env_sysinfo = None, env_ps = None\<rparr>]"]
  note primed = cpu_sample_against_last_observation [where ?stat0.0 = "Some \<lparr>cpuLabel = ''cpu'', user = 100, nice = 0, system = 100, idle = 200, iowait = 0, irq = 0, softirq = 0, steal = 0\<rparr>" and es = "[\<lparr>env_stat = Some \<lparr>cpuLabel = ''cpu'', user = 125, nice = 0, system = 100, idle = 275, iowait = 0, irq = 0, softirq = 0, steal = 0\<rparr>, env_sysinfo = None, env_ps = None\<rparr>]"]
  have a: "cpu_samples [\<lparr>env_stat = Some \<lparr>cpuLabel = ''cpu'', user = 125, nice = 0, system = 100, idle = 275, iowait = 0, irq = 0, softirq = 0, steal = 0\<rparr>, env_sysinfo = None, env_ps = None\<rparr>] (SystemMonitor_ctor None) ! 0 = 45"
    using failed_priming
    by (simp add: load_since_def last_observation_def observe_def total_def idleAll_def nonIdle_def)
  have b: "cpu_samples [\<lparr>env_stat = Some \<lparr>cpuLabel = ''cpu'', user = 125, nice = 0, system = 100, idle = 275, iowait = 0, irq = 0, softirq = 0, steal = 0\<rparr>, env_sysinfo = None, env_ps = None\<rparr>] (SystemMonitor_ctor (Some \<lparr>cpuLabel = ''cpu'', user = 100, nice = 0, system = 100, idle = 200, iowait = 0, irq = 0, softirq = 0, steal = 0\<rparr>)) ! 0 = 25"
    using primed
    by (simp add: load_since_def last_observation_def observe_def total_def idleAll_def nonIdle_def)
  have c: "cpuLoadPercent (GetHardwareStats (Updates [\<lparr>env_stat = Some \<lparr>cpuLabel = ''cpu'', user = 125, nice = 0, system = 100, idle = 275, iowait = 0, irq = 0, softirq = 0, steal = 0\<rparr>, env_sysinfo = None, env_ps = None\<rparr>] (SystemMonitor_ctor None))) = 45"
    using failed_priming a by simp
  have d: "GetCpuHistory (Updates [\<lparr>env_stat = Some \<lparr>cpuLabel = ''cpu'', user = 125, nice = 0, system = 100, idle = 275, iowait = 0, irq = 0, softirq = 0, steal = 0\<rparr>, env_sysinfo = None, env_ps = None\<rparr>] (SystemMonitor_ctor None)) = [45]"
    using failed_priming a by (simp add: most_recent_def MaxHistory_def)
  from a b c d show ?thesis by simp
qed

subsection \<open>Filtering the process cache\<close>

lemma find_str_iff_sublist: "find_str s t \<noteq> None \<longleftrightarrow> sublist t s"
  by (induction s) (auto simp: sublist_Cons_right)

lemma of_char_tolower_c:
  "(of_char (tolower_c c) :: nat) = (if isupper_c c then of_char c + 32 else of_char c)"
  by (simp add: tolower_c_def isupper_c_def)

lemma tolower_c_eq_iff: "tolower_c c = tolower_c d \<longleftrightarrow> same_letter c d"
proof -
  have "tolower_c c = tolower_c d \<longleftrightarrow> (of_char (tolower_c c) :: nat) = of_char (tolower_c d)"
    by simp
  also have "\<dots> \<longleftrightarrow> same_letter c d"
    unfolding of_char_tolower_c same_letter_def
    using of_char_eq_iff [of c d, where ?'a = nat]
    by (auto simp: isupper_c_def)
  finally show ?thesis .
qed

lemma toLower_eq_iff: "toLower u = toLower t \<longleftrightarrow> list_all2 same_letter u t"
proof -
  have "toLower u = toLower t \<longleftrightarrow> list_all2 (=) (map tolower_c u) (map tolower_c t)"
    by (simp add: toLower_def list.rel_eq)
  also have "\<dots> \<longleftrightarrow> list_all2 (\<lambda>c d. tolower_c c = tolower_c d) u t"
    by (simp add: list.rel_map)
  finally show ?thesis by (simp add: tolower_c_eq_iff)
qed

lemma sublist_toLower_iff:
  "sublist (toLower t) (toLower s) \<longleftrightarrow> contains_ignoring_case s t"
proof
  assume "sublist (toLower t) (toLower s)"
  then obtain u where "sublist u s" "toLower t = toLower u"
    unfolding toLower_def using sublist_map_rightE by blast
  then show "contains_ignoring_case s t"
    unfolding contains_ignoring_case_def using toLower_eq_iff [of u t] by auto
next
  assume "contains_ignoring_case s t"
  then obtain u where u: "sublist u s" "toLower u = toLower t"
    by (auto simp: contains_ignoring_case_def toLower_eq_iff)
  from u(1) have "sublist (toLower u) (toLower s)"
    unfolding toLower_def by (rule map_mono_sublist)
  with u(2) show "sublist (toLower t) (toLower s)" by simp
qed

lemma islower_tolower_c: "isupper_c c \<Longrightarrow> islower_c (tolower_c c)"
  by (simp add: islower_c_def of_char_tolower_c) (simp add: isupper_c_def)

lemma tolower_c_caseless: "caseless (tolower_c c) \<Longrightarrow> tolower_c c = c"
proof (cases "isupper_c c")
  case True
  assume "caseless (tolower_c c)"
  with islower_tolower_c [OF True] show ?thesis by (simp add: caseless_def)
next
  case False
  then show ?thesis by (simp add: tolower_c_def)
qed

lemma toLower_caseless: "\<forall>c \<in> set (toLower f). caseless c \<Longrightarrow> toLower f = f"
  unfolding toLower_def by (induction f) (auto intro: tolower_c_caseless)

lemma toLower_not_upper: "\<forall>c \<in> set f. \<not> isupper_c c \<Longrightarrow> toLower f = f"
  unfolding toLower_def by (induction f) (simp_all add: tolower_c_def)

lemma sublist_toLower_caseless:
  assumes "\<forall>c \<in> set s. caseless c"
  shows "sublist (toLower f) s \<longleftrightarrow> sublist f s"
proof
  assume a: "sublist (toLower f) s"
  then have "\<forall>c \<in> set (toLower f). caseless c"
    using assms set_mono_sublist by blast
  then have "toLower f = f" by (rule toLower_caseless)
  with a show "sublist f s" by simp
next
  assume a: "sublist f s"
  then have "\<forall>c \<in> set f. \<not> isupper_c c"
    using assms set_mono_sublist unfolding caseless_def by blast
  then have "toLower f = f" by (rule toLower_not_upper)
  with a show "sublist (toLower f) s" by simp
qed

lemma caseless_digit_char: "d < 10 \<Longrightarrow> caseless (digit_char d)"
  by (simp add: caseless_def digit_char_def isupper_c_def islower_c_def)

lemma caseless_nat_to_string: "\<forall>c \<in> set (nat_to_string n). caseless c"
proof (induction n rule: nat_to_string.induct)
  case (1 n)
  show ?case
  proof (cases "n < 10")
    case True
    then show ?thesis by (subst nat_to_string.simps) (simp add: caseless_digit_char)
  next
    case False
    with 1 show ?thesis
      by (subst nat_to_string.simps) (auto simp: caseless_digit_char)
  qed
qed

lemma caseless_to_string: "\<forall>c \<in> set (to_string i). caseless c"
  using caseless_nat_to_string
  by (auto simp: to_string_def caseless_def isupper_c_def islower_c_def)

lemma passes_filter_iff: "passes_filter (toLower flt) p \<longleftrightarrow> matches_filter flt p"
proof -
  have "toLower flt = [] \<Longrightarrow> contains_ignoring_case (name p) flt"
    using sublist_toLower_iff [of flt "name p"] by simp
  then show ?thesis
    unfolding passes_filter_def matches_filter_def find_str_iff_sublist
      sublist_toLower_iff sublist_toLower_caseless [OF caseless_to_string]
    by blast
qed

lemma eq_char_of_iff: "c = char_of (n :: nat) \<longleftrightarrow> take_bit 8 n = of_char c"
  using char_of_eq_iff [of n c] by auto

lemma GetProcesses_examples:
  "fst (GetProcesses ''CH'' (SystemMonitor_members\<lparr>m_processesCache := [\<lparr>pid = 123, name = ''Chrome''\<rparr>, \<lparr>pid = 456, name = ''bash''\<rparr>]\<rparr>)) = [\<lparr>pid = 123, name = ''Chrome''\<rparr>] \<and>
   fst (GetProcesses ''456'' (SystemMonitor_members\<lparr>m_processesCache := [\<lparr>pid = 123, name = ''Chrome''\<rparr>, \<lparr>pid = 456, name = ''bash''\<rparr>]\<rparr>)) = [\<lparr>pid = 456, name = ''bash''\<rparr>] \<and>
   fst (GetProcesses ''x'' (SystemMonitor_members\<lparr>m_processesCache := [\<lparr>pid = 123, name = ''Chrome''\<rparr>, \<lparr>pid = 456, name = ''bash''\<rparr>]\<rparr>)) = []"
  by (simp add: GetProcesses_def passes_filter_def toLower_def tolower_c_def isupper_c_def
      to_string_def nat_to_string.simps digit_char_def char_of_eq_iff eq_char_of_iff Let_def
      SystemMonitor_members_def)

text \<open>
  Claim C2. For every cache and every filter string, \<open>GetProcesses\<close> returns exactly the
  cached records (in the order of the cache) whose name contains the filter regardless of
  case or whose pid, written in decimal, contains the filter. The empty filter returns all
  cached records. The call leaves the object, and so the cache, as it was.
\<close>

theorem GetProcesses_filter:
  "GetProcesses flt m = (filter (matches_filter flt) (m_processesCache m), m) \<and>
   GetProcesses [] m = (m_processesCache m, m)"
proof
  have "passes_filter (toLower flt) = matches_filter flt"
    by (rule ext) (rule passes_filter_iff)
  then show "GetProcesses flt m = (filter (matches_filter flt) (m_processesCache m), m)"
    by (simp add: GetProcesses_def Let_def)
  show "GetProcesses [] m = (m_processesCache m, m)"
    by (simp add: GetProcesses_def Let_def toLower_def passes_filter_def)
qed


theorem GetProcesses_filter_witness:
  "GetProcesses ''CH'' (SystemMonitor_members\<lparr>m_processesCache := [\<lparr>pid = 123, name = ''Chrome''\<rparr>, \<lparr>pid = 456, name = ''bash''\<rparr>]\<rparr>) = ([\<lparr>pid = 123, name = ''Chrome''\<rparr>], (SystemMonitor_members\<lparr>m_processesCache := [\<lparr>pid = 123, name = ''Chrome''\<rparr>, \<lparr>pid = 456, name = ''bash''\<rparr>]\<rparr>)) \<and>
   matches_filter ''CH'' \<lparr>pid = 123, name = ''Chrome''\<rparr> \<and>
   \<not> matches_filter ''CH'' \<lparr>pid = 456, name = ''bash''\<rparr>"
proof -
  have "fst (GetProcesses ''CH'' (SystemMonitor_members\<lparr>m_processesCache := [\<lparr>pid = 123, name = ''Chrome''\<rparr>, \<lparr>pid = 456, name = ''bash''\<rparr>]\<rparr>)) = [\<lparr>pid = 123, name = ''Chrome''\<rparr>]"
    by (simp add: GetProcesses_def passes_filter_def toLower_def tolower_c_def isupper_c_def
      to_string_def nat_to_string.simps digit_char_def char_of_eq_iff eq_char_of_iff Let_def
      SystemMonitor_members_def)
  with GetProcesses_filter [of "''CH''" "(SystemMonitor_members\<lparr>m_processesCache := [\<lparr>pid = 123, name = ''Chrome''\<rparr>, \<lparr>pid = 456, name = ''bash''\<rparr>]\<rparr>)"]
  have "filter (matches_filter ''CH'') [\<lparr>pid = 123, name = ''Chrome''\<rparr>, \<lparr>pid = 456, name = ''bash''\<rparr>]
      = [\<lparr>pid = 123, name = ''Chrome''\<rparr>]"
    by (simp add: SystemMonitor_members_def)
  then have "matches_filter ''CH'' \<lparr>pid = 123, name = ''Chrome''\<rparr> \<and>
   \<not> matches_filter ''CH'' \<lparr>pid = 456, name = ''bash''\<rparr>"
    by (simp split: if_splits)
  with GetProcesses_filter [of "''CH''" "(SystemMonitor_members\<lparr>m_processesCache := [\<lparr>pid = 123, name = ''Chrome''\<rparr>, \<lparr>pid = 456, name = ''bash''\<rparr>]\<rparr>)"] show ?thesis
    by (simp add: SystemMonitor_members_def)
qed


subsection \<open>Names of enumerated processes\<close>

lemma parse_ps_line_name: "parse_ps_line buffer = Some p \<Longrightarrow> name p \<noteq> []"
  by (auto simp: parse_ps_line_def Let_def split: option.splits if_splits)

lemma parse_ps_line_placeholder:
  "extract_int buffer = Some (n, rest) \<Longrightarrow> dropWhile isspace_c (getline rest) = [] \<Longrightarrow>
   parse_ps_line buffer = Some \<lparr>pid = n, name = ''unknown''\<rparr>"
  by (simp add: parse_ps_line_def)

lemma read_ps_lines_names:
  "\<forall>p \<in> set procs. name p \<noteq> [] \<Longrightarrow> \<forall>p \<in> set (read_ps_lines bufs procs). name p \<noteq> []"
proof (induction bufs arbitrary: procs)
  case Nil
  then show ?case by simp
next
  case (Cons buffer bufs)
  show ?case
  proof (cases "parse_ps_line buffer")
    case None
    with Cons show ?thesis by simp
  next
    case (Some p)
    then have "name p \<noteq> []" by (rule parse_ps_line_name)
    with Cons.prems have "\<forall>q \<in> set (procs @ [p]). name q \<noteq> []" by simp
    then have "\<forall>q \<in> set (read_ps_lines bufs (procs @ [p])). name q \<noteq> []"
      by (rule Cons.IH)
    with Some show ?thesis by simp
  qed
qed

lemma QueryProcesses_names: "\<forall>p \<in> set (QueryProcesses ps). name p \<noteq> []"
proof (cases ps)
  case None
  then show ?thesis by (simp add: QueryProcesses_def)
next
  case (Some bufs)
  have "\<forall>p \<in> set (read_ps_lines bufs []). name p \<noteq> []"
    by (rule read_ps_lines_names) simp
  with Some show ?thesis by (simp add: QueryProcesses_def)
qed

lemma ctor_cache: "m_processesCache (SystemMonitor_ctor stat) = []"
  by (simp add: SystemMonitor_ctor_def SampleCpuUsage_def SystemMonitor_members_def Let_def
      split: option.splits)

lemma Updates_cache_names:
  "\<forall>p \<in> set (m_processesCache m). name p \<noteq> [] \<Longrightarrow>
   \<forall>p \<in> set (m_processesCache (Updates es m)). name p \<noteq> []"
proof (induction es arbitrary: m)
  case Nil
  then show ?case by simp
next
  case (Cons e es)
  have "\<forall>p \<in> set (m_processesCache (Update e m)). name p \<noteq> []"
    by (simp add: Update_cache QueryProcesses_names)
  then show ?case using Cons.IH by simp
qed

lemma GetProcesses_subset: "set (fst (GetProcesses flt m)) \<subseteq> set (m_processesCache m)"
  by (simp add: GetProcesses_def Let_def)

lemma QueryProcesses_example:
  "QueryProcesses (Some [''    1 systemd'' @ [CHR 0x0A], ''   77 '' @ [CHR 0x0A], ''ps: warning'' @ [CHR 0x0A]])
     = [\<lparr>pid = 1, name = ''systemd''\<rparr>, \<lparr>pid = 77, name = ''unknown''\<rparr>]"
  by (simp add: QueryProcesses_def parse_ps_line_def extract_int_def getline_def digits_value_def
      isspace_c_def isdigit_c_def Let_def)

text \<open>
  Claim C9. Every record that the enumeration produces has a name that is not empty, and
  so has every record that \<open>GetProcesses\<close> returns, with any filter, from a monitor that
  was constructed and ticked any number of times. A line of which only the pid can be read
  (nothing but white space follows it) is recorded under the name \<^verbatim>\<open>unknown\<close>.
\<close>

theorem process_names_nonempty:
  "(\<forall>p \<in> set (QueryProcesses ps). name p \<noteq> []) \<and>
   (\<forall>p \<in> set (fst (GetProcesses flt (Updates es (SystemMonitor_ctor stat0)))). name p \<noteq> []) \<and>
   (\<forall>n rest. extract_int buffer = Some (n, rest) \<longrightarrow> dropWhile isspace_c (getline rest) = [] \<longrightarrow>
      parse_ps_line buffer = Some \<lparr>pid = n, name = ''unknown''\<rparr>)"
proof (intro conjI)
  show "\<forall>p \<in> set (QueryProcesses ps). name p \<noteq> []"
    by (rule QueryProcesses_names)
  have "\<forall>p \<in> set (m_processesCache (Updates es (SystemMonitor_ctor stat0))). name p \<noteq> []"
    by (rule Updates_cache_names) (simp add: ctor_cache)
  then show "\<forall>p \<in> set (fst (GetProcesses flt (Updates es (SystemMonitor_ctor stat0)))). name p \<noteq> []"
    using GetProcesses_subset by blast
  show "\<forall>n rest. extract_int buffer = Some (n, rest) \<longrightarrow> dropWhile isspace_c (getline rest) = [] \<longrightarrow>
      parse_ps_line buffer = Some \<lparr>pid = n, name = ''unknown''\<rparr>"
    by (simp add: parse_ps_line_placeholder)
qed

theorem process_names_nonempty_witness:
  "QueryProcesses (Some [''    1 systemd'' @ [CHR 0x0A], ''   77 '' @ [CHR 0x0A], ''ps: warning'' @ [CHR 0x0A]])
     = [\<lparr>pid = 1, name = ''systemd''\<rparr>, \<lparr>pid = 77, name = ''unknown''\<rparr>] \<and>
   name \<lparr>pid = 77, name = ''unknown''\<rparr> \<noteq> [] \<and>
   extract_int (''   77 '' @ [CHR 0x0A]) = Some (77, '' '' @ [CHR 0x0A]) \<and>
   parse_ps_line (''   77 '' @ [CHR 0x0A]) = Some \<lparr>pid = 77, name = ''unknown''\<rparr>"
proof -
  have q: "QueryProcesses (Some [''    1 systemd'' @ [CHR 0x0A], ''   77 '' @ [CHR 0x0A], ''ps: warning'' @ [CHR 0x0A]])
     = [\<lparr>pid = 1, name = ''systemd''\<rparr>, \<lparr>pid = 77, name = ''unknown''\<rparr>]"
    by (rule QueryProcesses_example)
  have x: "extract_int (''   77 '' @ [CHR 0x0A]) = Some (77, '' '' @ [CHR 0x0A])"
    by (simp add: extract_int_def digits_value_def isspace_c_def isdigit_c_def Let_def)
  have g: "dropWhile isspace_c (getline ('' '' @ [CHR 0x0A])) = []"
    by (simp add: getline_def isspace_c_def)
  from process_names_nonempty
    [of "Some [''    1 systemd'' @ [CHR 0x0A], ''   77 '' @ [CHR 0x0A], ''ps: warning'' @ [CHR 0x0A]]"
        "[]" "[]" None "''   77 '' @ [CHR 0x0A]"] q x g
  show ?thesis by simp
qed


subsection \<open>Refresh requests coalesce\<close>

lemma Fetch_keeps_flags:
  "m_weatherLoading (FetchWeatherBlocking e m) = m_weatherLoading m"
  "m_weatherThreadStop (FetchWeatherBlocking e m) = m_weatherThreadStop m"
  by (simp_all add: FetchWeatherBlocking_def weather_reset_def split: option.splits)

lemma RequestWeatherRefresh_idem:
  "RequestWeatherRefresh (RequestWeatherRefresh m) = RequestWeatherRefresh m"
  by (simp add: RequestWeatherRefresh_def)

lemma RequestWeatherRefresh_pending:
  "m_weatherLoading m \<Longrightarrow> RequestWeatherRefresh m = m"
  by (simp add: RequestWeatherRefresh_def)

lemma counts_agree_worker_step: "counts_agree s \<Longrightarrow> counts_agree (worker_step e s)"
  by (cases "worker s")
    (simp_all add: counts_agree_def in_cycle_def worker_step_def Fetch_keeps_flags)

lemma counts_agree_step: "counts_agree s \<Longrightarrow> counts_agree (weather_step ev s)"
  by (cases ev)
    (auto simp: counts_agree_worker_step, auto simp: counts_agree_def in_cycle_def RequestWeatherRefresh_def)

lemma counts_agree_run: "counts_agree s \<Longrightarrow> counts_agree (weather_run evs s)"
  by (induction evs arbitrary: s) (simp_all add: counts_agree_step)

lemma ctor_flags:
  "\<not> m_weatherLoading (SystemMonitor_ctor stat)" "\<not> m_weatherThreadStop (SystemMonitor_ctor stat)"
  by (simp_all add: SystemMonitor_ctor_def SampleCpuUsage_def SystemMonitor_members_def Let_def
      split: option.splits)

lemma counts_agree_init: "counts_agree (weather_sys_init stat)"
  by (simp add: counts_agree_def in_cycle_def weather_sys_init_def ctor_flags)

lemma weather_run_append: "weather_run (evs1 @ evs2) s = weather_run evs2 (weather_run evs1 s)"
  by (induction evs1 arbitrary: s) simp_all

lemma completions_step: "completions s \<le> completions (weather_step ev s)"
  by (cases ev; cases "worker s") (simp_all add: worker_step_def)

lemma completions_run: "completions s \<le> completions (weather_run evs s)"
proof (induction evs arbitrary: s)
  case Nil
  then show ?case by simp
next
  case (Cons ev evs)
  have "completions s \<le> completions (weather_step ev s)" by (rule completions_step)
  also have "\<dots> \<le> completions (weather_run evs (weather_step ev s))" by (rule Cons.IH)
  finally show ?case by simp
qed

lemma stop_flag_step:
  "ev \<noteq> Stop \<Longrightarrow>
   m_weatherThreadStop (monitor (weather_step ev s)) = m_weatherThreadStop (monitor s)"
  by (cases ev; cases "worker s")
    (simp_all add: worker_step_def RequestWeatherRefresh_def Fetch_keeps_flags)

lemma stop_flag_run:
  "Stop \<notin> set evs \<Longrightarrow>
   m_weatherThreadStop (monitor (weather_run evs s)) = m_weatherThreadStop (monitor s)"
proof (induction evs arbitrary: s)
  case Nil
  then show ?case by simp
next
  case (Cons ev evs)
  then have ne: "ev \<noteq> Stop" and rest: "Stop \<notin> set evs" by auto
  from rest have "m_weatherThreadStop (monitor (weather_run evs (weather_step ev s))) =
             m_weatherThreadStop (monitor (weather_step ev s))"
    by (rule Cons.IH)
  also from ne have "\<dots> = m_weatherThreadStop (monitor s)"
    by (rule stop_flag_step)
  finally show ?case by simp
qed

lemma loading_step_same_completions:
  assumes "completions (weather_step ev s) = completions s"
    and "ev = Request \<or> m_weatherLoading (monitor s)"
  shows "m_weatherLoading (monitor (weather_step ev s))"
  using assms
  by (cases ev; cases "worker s")
    (auto simp: worker_step_def RequestWeatherRefresh_def Fetch_keeps_flags)

lemma pending_stays:
  "completions (weather_run evs s) = completions s \<Longrightarrow>
   Request \<in> set evs \<or> m_weatherLoading (monitor s) \<Longrightarrow>
   m_weatherLoading (monitor (weather_run evs s))"
proof (induction evs arbitrary: s)
  case Nil
  then show ?case by simp
next
  case (Cons ev evs)
  let ?s' = "weather_step ev s"
  have le1: "completions s \<le> completions ?s'" by (rule completions_step)
  have le2: "completions ?s' \<le> completions (weather_run evs ?s')" by (rule completions_run)
  from Cons.prems(1) le1 le2 have same: "completions ?s' = completions s"
    and rest: "completions (weather_run evs ?s') = completions ?s'" by simp_all
  have "Request \<in> set evs \<or> m_weatherLoading (monitor ?s')"
  proof (cases "Request \<in> set evs")
    case True
    then show ?thesis by simp
  next
    case False
    with Cons.prems(2) have "ev = Request \<or> m_weatherLoading (monitor s)" by auto
    with same show ?thesis by (simp add: loading_step_same_completions)
  qed
  with rest have "m_weatherLoading (monitor (weather_run evs ?s'))" by (rule Cons.IH)
  then show ?case by simp
qed

lemma settled_worker_step:
  assumes "settled_from c s"
  shows "settled_from c (worker_step e s)"
proof -
  from assms have ca: "counts_agree (worker_step e s)"
    by (simp add: settled_from_def counts_agree_worker_step)
  from assms have b: "c \<le> completions s" "completions s \<le> c + 1"
    and d: "completions s = c + 1 \<longrightarrow> \<not> m_weatherLoading (monitor s) \<and> \<not> in_cycle s"
    by (simp_all add: settled_from_def)
  from assms have cyc: "in_cycle s \<longrightarrow> m_weatherLoading (monitor s)"
    by (simp add: settled_from_def counts_agree_def)
  have "c \<le> completions (worker_step e s) \<and> completions (worker_step e s) \<le> c + 1 \<and>
     (completions (worker_step e s) = c + 1 \<longrightarrow>
        \<not> m_weatherLoading (monitor (worker_step e s)) \<and> \<not> in_cycle (worker_step e s))"
    using b d cyc
    by (cases "worker s") (auto simp: in_cycle_def worker_step_def Fetch_keeps_flags)
  with ca show ?thesis by (simp add: settled_from_def)
qed

lemma settled_step: "settled_from c s \<Longrightarrow> ev \<noteq> Request \<Longrightarrow> settled_from c (weather_step ev s)"
  by (cases ev)
    (simp_all add: settled_worker_step, simp add: settled_from_def counts_agree_def in_cycle_def)

lemma settled_run:
  "settled_from c s \<Longrightarrow> Request \<notin> set evs \<Longrightarrow> settled_from c (weather_run evs s)"
proof (induction evs arbitrary: s)
  case Nil
  then show ?case by simp
next
  case (Cons ev evs)
  from Cons.prems have "settled_from c (weather_step ev s)" by (auto intro: settled_step)
  with Cons show ?case by simp
qed

lemma settled_single_fetch:
  assumes "settled_from c s"
  shows "fetch_calls s \<le> c + 1"
    and "completions s \<ge> c + 1 \<Longrightarrow>
           fetch_calls s = c + 1 \<and> completions s = c + 1 \<and> \<not> m_weatherLoading (monitor s)"
  using assms by (auto simp: settled_from_def counts_agree_def split: if_splits)

lemma quiet_worker_step:
  "counts_agree s \<Longrightarrow> \<not> m_weatherLoading (monitor s) \<Longrightarrow>
   \<not> m_weatherLoading (monitor (worker_step e s)) \<and>
   fetch_calls (worker_step e s) = fetch_calls s \<and> accepted (worker_step e s) = accepted s"
  by (cases "worker s") (auto simp: counts_agree_def in_cycle_def worker_step_def)

lemma quiet_run:
  "counts_agree s \<Longrightarrow> \<not> m_weatherLoading (monitor s) \<Longrightarrow> Request \<notin> set evs \<Longrightarrow>
   fetch_calls (weather_run evs s) = fetch_calls s \<and> accepted (weather_run evs s) = accepted s"
proof (induction evs arbitrary: s)
  case Nil
  then show ?case by simp
next
  case (Cons ev evs)
  from Cons.prems(3) have nr: "ev \<noteq> Request" "Request \<notin> set evs" by auto
  have ca: "counts_agree (weather_step ev s)" using Cons.prems(1) by (rule counts_agree_step)
  have q: "\<not> m_weatherLoading (monitor (weather_step ev s)) \<and>
           fetch_calls (weather_step ev s) = fetch_calls s \<and>
           accepted (weather_step ev s) = accepted s"
    using nr(1) Cons.prems(1,2) by (cases ev) (simp_all add: quiet_worker_step)
  then have "fetch_calls (weather_run evs (weather_step ev s)) = fetch_calls (weather_step ev s) \<and>
             accepted (weather_run evs (weather_step ev s)) = accepted (weather_step ev s)"
    using ca nr(2) by (intro Cons.IH) simp_all
  with q show ?case by simp
qed

lemma progressing_worker_step:
  assumes "progressing c n s"
  shows "progressing c (n - 1) (worker_step e s)"
proof -
  let ?s' = "worker_step e s"
  from assms have ca: "counts_agree ?s'"
    by (simp add: progressing_def counts_agree_worker_step)
  from assms have ns: "\<not> m_weatherThreadStop (monitor s)"
    by (simp add: progressing_def)
  then have ns': "\<not> m_weatherThreadStop (monitor ?s')"
    by (cases "worker s") (simp_all add: worker_step_def Fetch_keeps_flags)
  from assms consider
      (pending) "completions s = c" "m_weatherLoading (monitor s)" "worker s \<noteq> Exited"
        "steps_to_clear (worker s) \<le> n"
    | (completed) "completions s = c + 1" "\<not> m_weatherLoading (monitor s)" "\<not> in_cycle s"
    by (auto simp: progressing_def)
  then have "(completions ?s' = c \<and> m_weatherLoading (monitor ?s') \<and> worker ?s' \<noteq> Exited \<and>
       steps_to_clear (worker ?s') \<le> n - 1) \<or>
      (completions ?s' = c + 1 \<and> \<not> m_weatherLoading (monitor ?s') \<and> \<not> in_cycle ?s')"
  proof cases
    case pending
    with ns show ?thesis
      by (cases "worker s") (simp_all add: worker_step_def in_cycle_def Fetch_keeps_flags)
  next
    case completed
    with ns show ?thesis
      by (cases "worker s") (simp_all add: worker_step_def in_cycle_def Fetch_keeps_flags)
  qed
  with ca ns' show ?thesis by (simp add: progressing_def)
qed

lemma progressing_run:
  "progressing c n s \<Longrightarrow> Request \<notin> set evs \<Longrightarrow> Stop \<notin> set evs \<Longrightarrow>
   progressing c (n - length evs) (weather_run evs s)"
proof (induction evs arbitrary: s n)
  case Nil
  then show ?case by simp
next
  case (Cons ev evs)
  from Cons.prems(2,3) obtain e where ev: "ev = Worker e" by (cases ev) auto
  from Cons.prems(1) have "progressing c (n - 1) (worker_step e s)"
    by (rule progressing_worker_step)
  then have "progressing c (n - 1) (weather_step ev s)"
    by (simp add: ev)
  then have "progressing c (n - 1 - length evs) (weather_run evs (weather_step ev s))"
    using Cons.prems(2,3) by (intro Cons.IH) simp_all
  then show ?case by simp
qed

lemma progressing_done:
  assumes "progressing c 0 s"
  shows "fetch_calls s = c + 1 \<and> completions s = c + 1 \<and> \<not> m_weatherLoading (monitor s)"
proof -
  have "steps_to_clear w = 0 \<Longrightarrow> w = Exited" for w by (cases w) simp_all
  with assms show ?thesis
    by (auto simp: progressing_def counts_agree_def)
qed


lemma steps_to_clear_le: "steps_to_clear w \<le> 5"
  by (cases w) simp_all

lemmas weather_eval =
  weather_sys_init_def SystemMonitor_ctor_def SampleCpuUsage_def SystemMonitor_members_def
  worker_step_def RequestWeatherRefresh_def FetchWeatherBlocking_def weather_reset_def
  IsWeatherLoading_def

lemma earlier_refresh:
  "weather_run [Request, Worker \<lparr>curl_init_ok = True, curl_res = 28, parsed_body = None, clock_now = 3\<rparr>, Worker \<lparr>curl_init_ok = True, curl_res = 28, parsed_body = None, clock_now = 3\<rparr>, Worker \<lparr>curl_init_ok = True, curl_res = 28, parsed_body = None, clock_now = 3\<rparr>, Worker \<lparr>curl_init_ok = True, curl_res = 28, parsed_body = None, clock_now = 3\<rparr>, Worker \<lparr>curl_init_ok = True, curl_res = 28, parsed_body = None, clock_now = 3\<rparr>] (weather_sys_init None)
     = \<lparr>monitor = SystemMonitor_members, worker = At_stop_check, fetch_calls = 1, completions = 1,
        accepted = 1\<rparr>"
  by (simp add: weather_eval)

text \<open>
  Claim C4. \<open>RequestWeatherRefresh\<close> is idempotent on the object, and a call made while
  the flag is set (a refresh is pending or in flight) leaves the object exactly as it is.
  Take any interleaving \<open>earlier\<close> of requests, worker steps and the destructor's stop
  from a freshly constructed monitor, reaching the state \<open>s\<close>. There the accepted requests
  are the fetches called so far, plus one if a request is pending that the worker has not
  picked up yet: every fetch was triggered by one accepted request. Let no refresh be
  pending in \<open>s\<close>, and let the run go on with \<open>batch\<close>, during which no refresh completes,
  and then with \<open>later\<close>, which has no request; so every request of the continuation is
  issued before the pending refresh completes. Then the worker calls the fetch at most once
  in the continuation, and if a refresh completes in it, exactly once. If the batch has no
  request there is no fetch at all. If it has any number of requests, at least one, the
  destructor has not stopped the worker and the worker takes five steps or more in
  \<open>later\<close>, then exactly one request was accepted, the fetch was called exactly once, one
  refresh has completed and the flag is clear again: the requests were merged into one
  fetch, not queued.
\<close>

theorem refresh_requests_coalesce:
  assumes start: "s = weather_run earlier (weather_sys_init stat)"
    and final: "t = weather_run (batch @ later) s"
  shows "RequestWeatherRefresh (RequestWeatherRefresh m) = RequestWeatherRefresh m \<and>
   (IsWeatherLoading m \<longrightarrow> RequestWeatherRefresh m = m) \<and>
   accepted s =
     fetch_calls s + (if IsWeatherLoading (monitor s) \<and> \<not> in_cycle s then 1 else 0) \<and>
   (\<not> IsWeatherLoading (monitor s) \<longrightarrow>
    completions (weather_run batch s) = completions s \<longrightarrow>
    Request \<notin> set later \<longrightarrow>
      fetch_calls t \<le> fetch_calls s + 1 \<and>
      (completions s + 1 \<le> completions t \<longrightarrow>
         fetch_calls t = fetch_calls s + 1 \<and> completions t = completions s + 1 \<and>
         \<not> IsWeatherLoading (monitor t)) \<and>
      (Request \<notin> set batch \<longrightarrow> fetch_calls t = fetch_calls s \<and> accepted t = accepted s) \<and>
      (Request \<in> set batch \<longrightarrow> Stop \<notin> set (earlier @ batch @ later) \<longrightarrow> 5 \<le> length later \<longrightarrow>
         fetch_calls t = fetch_calls s + 1 \<and> completions t = completions s + 1 \<and>
         accepted t = accepted s + 1 \<and> \<not> IsWeatherLoading (monitor t)))"
proof (intro conjI impI)
  show "RequestWeatherRefresh (RequestWeatherRefresh m) = RequestWeatherRefresh m"
    by (rule RequestWeatherRefresh_idem)
next
  assume "IsWeatherLoading m"
  then show "RequestWeatherRefresh m = m"
    by (simp add: IsWeatherLoading_def RequestWeatherRefresh_pending)
next
  have "counts_agree s"
    unfolding start by (rule counts_agree_run) (rule counts_agree_init)
  then show "accepted s =
     fetch_calls s + (if IsWeatherLoading (monitor s) \<and> \<not> in_cycle s then 1 else 0)"
    by (auto simp: counts_agree_def IsWeatherLoading_def)
next
  let ?s1 = "weather_run batch s"
  assume idle: "\<not> IsWeatherLoading (monitor s)"
    and same: "completions ?s1 = completions s"
    and quiet: "Request \<notin> set later"
  have ca0: "counts_agree s"
    unfolding start by (rule counts_agree_run) (rule counts_agree_init)
  with idle have f0: "fetch_calls s = completions s" and a0: "accepted s = completions s"
    by (auto simp: counts_agree_def IsWeatherLoading_def)
  from ca0 have ca1: "counts_agree ?s1" by (rule counts_agree_run)
  then have ca: "counts_agree t" unfolding final weather_run_append by (rule counts_agree_run)
  from ca1 same have "settled_from (completions s) ?s1" by (simp add: settled_from_def)
  then have st: "settled_from (completions s) t"
    unfolding final weather_run_append using quiet by (rule settled_run)
  from settled_single_fetch(1) [OF st] show "fetch_calls t \<le> fetch_calls s + 1"
    by (simp add: f0)
  { assume "completions s + 1 \<le> completions t"
    with settled_single_fetch(2) [OF st]
    show "fetch_calls t = fetch_calls s + 1" and "completions t = completions s + 1"
      and "\<not> IsWeatherLoading (monitor t)"
      by (simp_all add: IsWeatherLoading_def f0) }
  { assume "Request \<notin> set batch"
    with quiet have "Request \<notin> set (batch @ later)" by simp
    with ca0 idle have "fetch_calls t = fetch_calls s \<and> accepted t = accepted s"
      unfolding final IsWeatherLoading_def by (intro quiet_run)
    then show "fetch_calls t = fetch_calls s" and "accepted t = accepted s" by simp_all }
  { assume req: "Request \<in> set batch" and nostop: "Stop \<notin> set (earlier @ batch @ later)"
      and len: "5 \<le> length later"
    from nostop have "Stop \<notin> set (earlier @ batch)" and ns2: "Stop \<notin> set later" by simp_all
    then have "m_weatherThreadStop (monitor (weather_run (earlier @ batch) (weather_sys_init stat)))
        = m_weatherThreadStop (monitor (weather_sys_init stat))"
      by (intro stop_flag_run)
    then have ns: "\<not> m_weatherThreadStop (monitor ?s1)"
      by (simp add: weather_run_append start weather_sys_init_def ctor_flags)
    with ca1 have alive: "worker ?s1 \<noteq> Exited" by (auto simp: counts_agree_def)
    from same req have "m_weatherLoading (monitor ?s1)" by (intro pending_stays) simp_all
    with ca1 ns alive same have "progressing (completions s) 5 ?s1"
      by (simp add: progressing_def steps_to_clear_le)
    then have "progressing (completions s) (5 - length later) (weather_run later ?s1)"
      using quiet ns2 by (rule progressing_run)
    with len have "progressing (completions s) 0 t"
      by (simp add: final weather_run_append)
    then have d: "fetch_calls t = completions s + 1 \<and> completions t = completions s + 1 \<and>
        \<not> m_weatherLoading (monitor t)"
      by (rule progressing_done)
    with ca have "accepted t = completions s + 1" by (simp add: counts_agree_def)
    with d show "fetch_calls t = fetch_calls s + 1" and "completions t = completions s + 1"
      and "accepted t = accepted s + 1" and "\<not> IsWeatherLoading (monitor t)"
      by (simp_all add: f0 a0 IsWeatherLoading_def) }
qed

theorem refresh_requests_coalesce_witness:
  "\<not> IsWeatherLoading (monitor (weather_run
       [Request, Worker \<lparr>curl_init_ok = True, curl_res = 28, parsed_body = None, clock_now = 3\<rparr>, Worker \<lparr>curl_init_ok = True, curl_res = 28, parsed_body = None, clock_now = 3\<rparr>, Worker \<lparr>curl_init_ok = True, curl_res = 28, parsed_body = None, clock_now = 3\<rparr>, Worker \<lparr>curl_init_ok = True, curl_res = 28, parsed_body = None, clock_now = 3\<rparr>, Worker \<lparr>curl_init_ok = True, curl_res = 28, parsed_body = None, clock_now = 3\<rparr>] (weather_sys_init None))) \<and>
   fetch_calls (weather_run
       [Request, Worker \<lparr>curl_init_ok = True, curl_res = 28, parsed_body = None, clock_now = 3\<rparr>, Worker \<lparr>curl_init_ok = True, curl_res = 28, parsed_body = None, clock_now = 3\<rparr>, Worker \<lparr>curl_init_ok = True, curl_res = 28, parsed_body = None, clock_now = 3\<rparr>, Worker \<lparr>curl_init_ok = True, curl_res = 28, parsed_body = None, clock_now = 3\<rparr>, Worker \<lparr>curl_init_ok = True, curl_res = 28, parsed_body = None, clock_now = 3\<rparr>] (weather_sys_init None)) = 1 \<and>
   Request \<in> set [Request, Worker \<lparr>curl_init_ok = True, curl_res = 28, parsed_body = None, clock_now = 3\<rparr>, Request, Request] \<and>
   completions (weather_run [Request, Worker \<lparr>curl_init_ok = True, curl_res = 28, parsed_body = None, clock_now = 3\<rparr>, Request, Request]
     (weather_run [Request, Worker \<lparr>curl_init_ok = True, curl_res = 28, parsed_body = None, clock_now = 3\<rparr>, Worker \<lparr>curl_init_ok = True, curl_res = 28, parsed_body = None, clock_now = 3\<rparr>, Worker \<lparr>curl_init_ok = True, curl_res = 28, parsed_body = None, clock_now = 3\<rparr>, Worker \<lparr>curl_init_ok = True, curl_res = 28, parsed_body = None, clock_now = 3\<rparr>, Worker \<lparr>curl_init_ok = True, curl_res = 28, parsed_body = None, clock_now = 3\<rparr>] (weather_sys_init None)))
     = completions (weather_run
       [Request, Worker \<lparr>curl_init_ok = True, curl_res = 28, parsed_body = None, clock_now = 3\<rparr>, Worker \<lparr>curl_init_ok = True, curl_res = 28, parsed_body = None, clock_now = 3\<rparr>, Worker \<lparr>curl_init_ok = True, curl_res = 28, parsed_body = None, clock_now = 3\<rparr>, Worker \<lparr>curl_init_ok = True, curl_res = 28, parsed_body = None, clock_now = 3\<rparr>, Worker \<lparr>curl_init_ok = True, curl_res = 28, parsed_body = None, clock_now = 3\<rparr>] (weather_sys_init None)) \<and>
   fetch_calls (weather_run
      ([Request, Worker \<lparr>curl_init_ok = True, curl_res = 28, parsed_body = None, clock_now = 3\<rparr>, Request, Request] @ [Worker \<lparr>curl_init_ok = True, curl_res = 28, parsed_body = None, clock_now = 3\<rparr>, Worker \<lparr>curl_init_ok = True, curl_res = 28, parsed_body = None, clock_now = 3\<rparr>, Worker \<lparr>curl_init_ok = True, curl_res = 28, parsed_body = None, clock_now = 3\<rparr>, Worker \<lparr>curl_init_ok = True, curl_res = 28, parsed_body = None, clock_now = 3\<rparr>, Worker \<lparr>curl_init_ok = True, curl_res = 28, parsed_body = None, clock_now = 3\<rparr>])
      (weather_run [Request, Worker \<lparr>curl_init_ok = True, curl_res = 28, parsed_body = None, clock_now = 3\<rparr>, Worker \<lparr>curl_init_ok = True, curl_res = 28, parsed_body = None, clock_now = 3\<rparr>, Worker \<lparr>curl_init_ok = True, curl_res = 28, parsed_body = None, clock_now = 3\<rparr>, Worker \<lparr>curl_init_ok = True, curl_res = 28, parsed_body = None, clock_now = 3\<rparr>, Worker \<lparr>curl_init_ok = True, curl_res = 28, parsed_body = None, clock_now = 3\<rparr>] (weather_sys_init None)))
     = 2 \<and>
   accepted (weather_run
      ([Request, Worker \<lparr>curl_init_ok = True, curl_res = 28, parsed_body = None, clock_now = 3\<rparr>, Request, Request] @ [Worker \<lparr>curl_init_ok = True, curl_res = 28, parsed_body = None, clock_now = 3\<rparr>, Worker \<lparr>curl_init_ok = True, curl_res = 28, parsed_body = None, clock_now = 3\<rparr>, Worker \<lparr>curl_init_ok = True, curl_res = 28, parsed_body = None, clock_now = 3\<rparr>, Worker \<lparr>curl_init_ok = True, curl_res = 28, parsed_body = None, clock_now = 3\<rparr>, Worker \<lparr>curl_init_ok = True, curl_res = 28, parsed_body = None, clock_now = 3\<rparr>])
      (weather_run [Request, Worker \<lparr>curl_init_ok = True, curl_res = 28, parsed_body = None, clock_now = 3\<rparr>, Worker \<lparr>curl_init_ok = True, curl_res = 28, parsed_body = None, clock_now = 3\<rparr>, Worker \<lparr>curl_init_ok = True, curl_res = 28, parsed_body = None, clock_now = 3\<rparr>, Worker \<lparr>curl_init_ok = True, curl_res = 28, parsed_body = None, clock_now = 3\<rparr>, Worker \<lparr>curl_init_ok = True, curl_res = 28, parsed_body = None, clock_now = 3\<rparr>] (weather_sys_init None)))
     = 2"
proof -
  let ?earlier = "[Request, Worker \<lparr>curl_init_ok = True, curl_res = 28, parsed_body = None, clock_now = 3\<rparr>, Worker \<lparr>curl_init_ok = True, curl_res = 28, parsed_body = None, clock_now = 3\<rparr>, Worker \<lparr>curl_init_ok = True, curl_res = 28, parsed_body = None, clock_now = 3\<rparr>, Worker \<lparr>curl_init_ok = True, curl_res = 28, parsed_body = None, clock_now = 3\<rparr>, Worker \<lparr>curl_init_ok = True, curl_res = 28, parsed_body = None, clock_now = 3\<rparr>]"
  let ?batch = "[Request, Worker \<lparr>curl_init_ok = True, curl_res = 28, parsed_body = None, clock_now = 3\<rparr>, Request, Request]"
  let ?later = "[Worker \<lparr>curl_init_ok = True, curl_res = 28, parsed_body = None, clock_now = 3\<rparr>, Worker \<lparr>curl_init_ok = True, curl_res = 28, parsed_body = None, clock_now = 3\<rparr>, Worker \<lparr>curl_init_ok = True, curl_res = 28, parsed_body = None, clock_now = 3\<rparr>, Worker \<lparr>curl_init_ok = True, curl_res = 28, parsed_body = None, clock_now = 3\<rparr>, Worker \<lparr>curl_init_ok = True, curl_res = 28, parsed_body = None, clock_now = 3\<rparr>]"
  let ?start = "weather_run ?earlier (weather_sys_init None)"
  have idle: "\<not> IsWeatherLoading (monitor ?start)"
    and f0: "fetch_calls ?start = 1" and a0: "accepted ?start = 1"
    unfolding earlier_refresh by (simp_all add: IsWeatherLoading_def SystemMonitor_members_def)
  have same: "completions (weather_run ?batch ?start) = completions ?start"
    unfolding earlier_refresh by (simp add: weather_eval)
  have quiet: "Request \<notin> set ?later" by simp
  have req: "Request \<in> set ?batch" by simp
  have nostop: "Stop \<notin> set (?earlier @ ?batch @ ?later)" by simp
  have len: "5 \<le> length ?later" by simp
  let ?final = "weather_run (?batch @ ?later) ?start"
  note whole = refresh_requests_coalesce
      [where earlier = ?earlier and stat = None and m = SystemMonitor_members
         and batch = ?batch and later = ?later, OF refl refl]
  note run_part = whole [THEN conjunct2, THEN conjunct2, THEN conjunct2, rule_format,
      OF idle same quiet]
  note live = run_part [THEN conjunct2, THEN conjunct2, THEN conjunct2, rule_format,
      OF req nostop len]
  from live have f: "fetch_calls ?final = fetch_calls ?start + 1"
    and a: "accepted ?final = accepted ?start + 1"
    by blast+
  from f f0 have "fetch_calls ?final = 2" by linarith
  moreover from a a0 have "accepted ?final = 2" by linarith
  ultimately have "fetch_calls ?final = 2" and "accepted ?final = 2" .
  with idle f0 req same show ?thesis by blast
qed

subsection \<open>Readers and the hardware lock\<close>

text \<open>
  Run alone, the five steps of the locked block have the effect that \<open>UpdateHardware\<close> has
  on the snapshot and the history, and release the mutex.
\<close>

lemmas hw_eval =
  hw_sys_start_def UpdateHardware_ops_def GetHardwareStats_ops_def GetCpuHistory_ops_def
  hw_step_def ops_of_def advance_def

lemma UpdateHardware_ops_sequential:
  "object (hw_run [Driver, Driver, Driver, Driver, Driver] (hw_sys_start m stats cpu accessor)) =
     m\<lparr>m_hwStats := stats,
       m_cpuHistory := (if length (m_cpuHistory m) \<ge> MaxHistory then tl (m_cpuHistory m)
                        else m_cpuHistory m) @ [cpu]\<rparr> \<and>
   hw_owner (hw_run [Driver, Driver, Driver, Driver, Driver] (hw_sys_start m stats cpu accessor)) = None"
  by (simp add: hw_eval)

text \<open>
  Claim C8 says that every reader of the snapshot and of the history takes the one lock
  that \<open>Update\<close> holds while it writes them, \<open>GetCpuHistory\<close> like
  \<open>GetHardwareStats\<close>. In the sources \<open>GetHardwareStats\<close> takes the lock and
  \<open>GetCpuHistory\<close> does not. On a monitor with a full history, let the driver lock,
  store the snapshot and erase the oldest sample, and let the reader step next: the driver
  still owns the mutex, yet \<open>GetCpuHistory\<close> has returned a history of 255 samples, which
  is neither the history before the tick (256 samples) nor the one after it (the same 255
  and the new sample). A reader in \<open>GetHardwareStats\<close> at the same point waits.
\<close>

theorem GetCpuHistory_observes_update_in_progress:
  "Lock_hwMutex \<notin> set GetCpuHistory_ops \<and>
   Lock_hwMutex \<in> set GetHardwareStats_ops \<and>
   hw_owner (hw_run [Driver, Driver, Driver, Reader]
       (hw_sys_start full_monitor new_stats 50 GetCpuHistory_ops)) = Some Driver \<and>
   seen_cpuHistory (hw_run [Driver, Driver, Driver, Reader]
       (hw_sys_start full_monitor new_stats 50 GetCpuHistory_ops)) = Some (replicate 255 0) \<and>
   m_cpuHistory full_monitor = replicate 256 0 \<and>
   m_cpuHistory (object (hw_run [Driver, Driver, Driver, Driver, Driver]
       (hw_sys_start full_monitor new_stats 50 GetCpuHistory_ops))) = replicate 255 0 @ [50] \<and>
   seen_hwStats (hw_run [Driver, Driver, Driver, Reader]
       (hw_sys_start full_monitor new_stats 50 GetHardwareStats_ops)) = None \<and>
   reader_ops (hw_run [Driver, Driver, Driver, Reader]
       (hw_sys_start full_monitor new_stats 50 GetHardwareStats_ops)) = GetHardwareStats_ops"
  by (simp add: hw_eval full_monitor_def new_stats_def SystemMonitor_members_def MaxHistory_def)


end
